theory Spec2Isabelle
  imports Main "HOL-Library.Word" "HOL-Library.Monad_Syntax"
begin

unbundle bit_operations_syntax

section \<open>The C library as far as \<open>cups/http-addr.c\<close> uses it\<close>

text \<open>
  A C string is modelled by the list of its characters before the terminating NUL; a
  pointer into a string is the list of the characters from that position on.
  \<open>peek p\<close> is \<open>*p\<close>: the character at the pointer, NUL at the end of the string.
\<close>

definition NUL :: char where
  "NUL = CHR 0x00"

definition peek :: "string \<Rightarrow> char" where
  "peek p = (case p of [] \<Rightarrow> NUL | c # _ \<Rightarrow> c)"

definition isdigit :: "char \<Rightarrow> bool" where
  "isdigit c = (48 \<le> (of_char c :: nat) \<and> (of_char c :: nat) \<le> 57)"

definition isxdigit :: "char \<Rightarrow> bool" where
  "isxdigit c = (isdigit c \<or> (97 \<le> (of_char c :: nat) \<and> (of_char c :: nat) \<le> 102)
                 \<or> (65 \<le> (of_char c :: nat) \<and> (of_char c :: nat) \<le> 70))"

definition isspace :: "char \<Rightarrow> bool" where
  "isspace c = ((of_char c :: nat) = 32 \<or> (9 \<le> (of_char c :: nat) \<and> (of_char c :: nat) \<le> 13))"

definition digit_val :: "char \<Rightarrow> nat" where
  "digit_val c = (if isdigit c then of_char c - 48
                  else if 97 \<le> (of_char c :: nat) then of_char c - 87
                  else of_char c - 55)"

definition digits_val :: "nat \<Rightarrow> string \<Rightarrow> nat" where
  "digits_val b ds = foldl (\<lambda>v c. v * b + digit_val c) 0 ds"

text \<open>
  \<open>strtoul(nptr, &endptr, 16)\<close>: white space, an optional sign, an optional \<open>0x\<close> and the
  longest run of hexadecimal digits. Without a digit nothing is converted: the value is 0
  and \<open>endptr\<close> is \<open>nptr\<close>. A value beyond \<open>ULONG_MAX\<close> (the first argument of the model) is
  returned as \<open>ULONG_MAX\<close>; a minus sign negates in \<open>unsigned long\<close>.
\<close>

definition has_0x :: "string \<Rightarrow> bool" where
  "has_0x u = (case u of
      c0 # cx # h # _ \<Rightarrow> c0 = CHR ''0'' \<and> (cx = CHR ''x'' \<or> cx = CHR ''X'') \<and> isxdigit h
    | _ \<Rightarrow> False)"

definition strtoul_16 :: "nat \<Rightarrow> string \<Rightarrow> nat \<times> string" where
  "strtoul_16 ulong_max nptr =
    (let t = dropWhile isspace nptr;
         neg = (peek t = CHR ''-'');
         u = (if peek t = CHR ''-'' \<or> peek t = CHR ''+'' then tl t else t);
         v = (if has_0x u then drop 2 u else u);
         ds = takeWhile isxdigit v;
         m = digits_val 16 ds
     in if ds = [] then (0, nptr)
        else (if ulong_max < m then ulong_max
              else if neg then (ulong_max + 1 - m) mod (ulong_max + 1)
              else m,
              dropWhile isxdigit v))"

text \<open>
  \<open>sscanf(name, "%u.%u.%u.%u", ...)\<close>. It is only called on strings of digits and dots,
  where a \<open>%u\<close> reads the longest run of digits and fails on a dot or at the end.
  \<open>scan_fields k p\<close> gives the values of the conversions that succeed, in order, with \<open>k\<close>
  conversions still in the format. The value of \<open>sscanf\<close> is their number, and \<open>EOF\<close> when
  the input ends before the first conversion.
\<close>

definition scan_u :: "string \<Rightarrow> (nat \<times> string) option" where
  "scan_u p = (let ds = takeWhile isdigit p
               in if ds = [] then None else Some (digits_val 10 ds, dropWhile isdigit p))"

fun scan_fields :: "nat \<Rightarrow> string \<Rightarrow> nat list" where
  "scan_fields 0 p = []"
| "scan_fields (Suc k) p =
    (case scan_u p of
       None \<Rightarrow> []
     | Some (v, r) \<Rightarrow>
         v # (if k = 0 then []
              else if peek r = CHR ''.'' then scan_fields k (tl r)
              else []))"

definition EOF :: int where
  "EOF = - 1"

definition sscanf_quad :: "string \<Rightarrow> int \<times> nat list" where
  "sscanf_quad name =
    (let vs = scan_fields 4 name
     in if name = [] then (EOF, []) else (int (length vs), vs))"

text \<open>
  \<open>snprintf(s, slen, ...)\<close> and \<open>strlcpy(s, src, slen)\<close> leave in the buffer the text cut to
  \<open>slen - 1\<close> characters, and leave the buffer alone when \<open>slen\<close> is 0. The first argument
  is the string in the buffer before the call, the size is the \<open>size_t\<close> the callee
  receives.
\<close>

definition snprintf :: "string \<Rightarrow> nat \<Rightarrow> string \<Rightarrow> string" where
  "snprintf s slen text = (if slen = 0 then s else take (slen - 1) text)"

definition strlcpy :: "string \<Rightarrow> string \<Rightarrow> nat \<Rightarrow> string" where
  "strlcpy dst src n = (if n = 0 then dst else take (n - 1) src)"

text \<open>
  The conversions \<open>%d\<close> and \<open>%x\<close> of a 32-bit argument: \<open>%d\<close> reads it as a signed \<open>int\<close>,
  \<open>%x\<close> as \<open>unsigned\<close>, in lower case and without leading zeros.
\<close>

definition digit_char :: "nat \<Rightarrow> char" where
  "digit_char d = char_of (if d < 10 then 48 + d else 87 + d)"

function print_base :: "nat \<Rightarrow> nat \<Rightarrow> string" where
  "print_base b n =
    (if n < b \<or> b < 2 then [digit_char n]
     else print_base b (n div b) @ [digit_char (n mod b)])"
  by pat_completeness auto
termination
  by (relation "measure snd") (auto simp: not_less)

definition printf_d :: "32 word \<Rightarrow> string" where
  "printf_d v =
    (if unat v < 2 ^ 31 then print_base 10 (unat v)
     else ''-'' @ print_base 10 (2 ^ 32 - unat v))"

definition printf_x :: "32 word \<Rightarrow> string" where
  "printf_x v = print_base 16 (unat v)"

text \<open>
  Byte order. A 32-bit object in memory is the list of its four bytes. \<open>htonl v\<close> is the
  memory of an object that holds \<open>htonl(v)\<close>: the bytes of \<open>v\<close>, most significant first, on
  every platform. \<open>ntohl bs\<close> is \<open>ntohl(x)\<close> of the object \<open>x\<close> whose memory is \<open>bs\<close>.
\<close>

definition byte :: "32 word \<Rightarrow> char" where
  "byte w = char_of (unat w)"

definition htonl :: "32 word \<Rightarrow> char list" where
  "htonl w = [byte (drop_bit 24 w), byte (drop_bit 16 w), byte (drop_bit 8 w), byte w]"

definition ntohl :: "char list \<Rightarrow> 32 word" where
  "ntohl bs = foldl (\<lambda>w c. push_bit 8 w OR of_char c) 0 (take 4 bs)"

text \<open>
  \<open>memcpy(dst, src, n)\<close> into an object \<open>dst\<close>: defined when \<open>n\<close> bytes can be read and
  written inside the two objects.
\<close>

definition memcpy :: "char list \<Rightarrow> char list \<Rightarrow> int \<Rightarrow> char list option" where
  "memcpy dst src n =
    (if n < 0 \<or> length src < nat n \<or> length dst < nat n then None
     else Some (take (nat n) src @ drop (nat n) dst))"

text \<open>Address families, with the values of \<open><sys/socket.h>\<close> on Linux.\<close>

definition AF_LOCAL :: int where
  "AF_LOCAL = 1"

definition AF_INET :: int where
  "AF_INET = 2"

definition AF_INET6 :: int where
  "AF_INET6 = 10"

definition IN6_IS_ADDR_UNSPECIFIED :: "char list \<Rightarrow> bool" where
  "IN6_IS_ADDR_UNSPECIFIED a = (take 16 a = replicate 16 NUL)"

definition IN6_IS_ADDR_LOOPBACK :: "char list \<Rightarrow> bool" where
  "IN6_IS_ADDR_LOOPBACK a = (take 16 a = replicate 15 NUL @ [CHR 0x01])"

section \<open>The data of \<open>cups/http-addr.c\<close>\<close>

text \<open>
  Modelled from the spec: the declaration of \<open>http_addr_t\<close> (\<open>cups/http.h\<close>) is not among
  the sources. Section 3 of the specification gives an address a family, a port and an
  address for IPv4 and IPv6, and a path for a Unix-domain socket; the members and their
  names are the ones \<open>http-addr.c\<close> uses. In C the type is a union of \<open>struct sockaddr\<close>,
  \<open>sockaddr_in\<close>, \<open>sockaddr_in6\<close> and \<open>sockaddr_un\<close>. The family tag is one field, shared by
  all members. The members of the three families are kept as fields of their own: the
  functions below read the member of the family that the tag names (and \<open>httpAddrEqual\<close>
  the IPv4 member for every tag that is left), so nothing here depends on how the
  members overlap in memory. Addresses are the bytes in memory, in network order; a
  port is kept as the number that \<open>htons\<close> is given.
\<close>

record http_addr_t =
  sa_family :: int
  sin_port :: "16 word"
  sin_addr :: "char list"
  sin6_port :: "16 word"
  sin6_addr :: "char list"
  sun_path :: string

text \<open>
  Pointers. A \<open>char *\<close> is null, or points to an object outside the library globals
  (given by its characters: the caller's name, a string literal, memory of the C
  library), to \<open>cg->hostname\<close> or to a row \<open>cg->ip_addrs[i]\<close>. A \<open>char **\<close> is null, is
  \<open>cg->ip_ptrs\<close>, or points to an array outside the globals. A \<open>struct hostent *\<close> is null,
  is \<open>&cg->hostent\<close>, or points to an entry of the C library.
\<close>

datatype char_ptr = NULL | Ext "char list" | Hostname | Ip_addrs nat

datatype list_ptr = NULL_list | Ip_ptrs | Ext_list "char_ptr list"

record hostent =
  h_name :: char_ptr
  h_aliases :: list_ptr
  h_addrtype :: int
  h_length :: int
  h_addr_list :: list_ptr

datatype hostent_ptr = NULL_hostent | Cg_hostent | Libc_hostent hostent

text \<open>
  Modelled from the spec: the declaration of \<open>_cups_globals_t\<close> (\<open>cups/globals.h\<close>) is not
  among the sources. Section 5 of the specification calls it the one process-wide
  scratch result buffer; its fields are the ones \<open>http-addr.c\<close> uses. The arrays \<open>ip_ptrs\<close>
  (pointers, written up to index \<open>CUPS_MAX_ADDRS\<close>) and \<open>ip_addrs\<close> (rows of four
  \<open>unsigned\<close>, 16 bytes each, written below index \<open>CUPS_MAX_ADDRS\<close>) are functions of the
  index.
\<close>

record cups_globals =
  hostent :: hostent
  ip_ptrs :: "nat \<Rightarrow> char_ptr"
  ip_addrs :: "nat \<Rightarrow> char list"
  hostname :: string

record addrinfo =
  ai_family :: int
  ai_canonname :: "string option"
  ai_addr :: http_addr_t

text \<open>
  What the file takes from outside: constants of headers that are not part of the
  sources at hand (\<open>CUPS_MAX_ADDRS\<close>, the sizes of \<open>cg->hostname\<close> and of \<open>sun_path\<close>,
  \<open>ULONG_MAX\<close>), the configuration macro \<open>HAVE_GETADDRINFO\<close>, and the resolver of the
  platform. \<open>getaddrinfo\<close> gives the list of results, \<open>None\<close> when it fails;
  \<open>gethostbyname\<close> and \<open>gethostbyaddr\<close> give a pointer to an entry of the C library or
  null. \<open>AF_INET6\<close> and \<open>AF_LOCAL\<close> are defined.
\<close>

record env =
  ULONG_MAX :: nat
  CUPS_MAX_ADDRS :: nat
  hostname_size :: nat
  sun_path_size :: nat
  HAVE_GETADDRINFO :: bool
  getaddrinfo :: "string \<Rightarrow> addrinfo list option"
  gethostbyname :: "string \<Rightarrow> hostent_ptr"
  gethostbyaddr :: "char list \<Rightarrow> int \<Rightarrow> hostent_ptr"

text \<open>
  Reading through pointers. \<open>None\<close> stands for a read that C leaves undefined: through a
  null pointer, outside an array, or past the end of an object.
\<close>

definition deref_hostent :: "cups_globals \<Rightarrow> hostent_ptr \<Rightarrow> hostent option" where
  "deref_hostent cg p =
    (case p of NULL_hostent \<Rightarrow> None | Cg_hostent \<Rightarrow> Some (hostent cg) | Libc_hostent h \<Rightarrow> Some h)"

definition bytes_at :: "cups_globals \<Rightarrow> char_ptr \<Rightarrow> char list option" where
  "bytes_at cg p =
    (case p of
       NULL \<Rightarrow> None
     | Ext s \<Rightarrow> Some s
     | Hostname \<Rightarrow> Some (hostname cg)
     | Ip_addrs i \<Rightarrow> Some (ip_addrs cg i))"

definition string_at :: "cups_globals \<Rightarrow> char_ptr \<Rightarrow> string option" where
  "string_at cg p =
    (case p of
       NULL \<Rightarrow> None
     | Ext s \<Rightarrow> Some (takeWhile (\<lambda>c. c \<noteq> NUL) s)
     | Hostname \<Rightarrow> Some (takeWhile (\<lambda>c. c \<noteq> NUL) (hostname cg))
     | Ip_addrs i \<Rightarrow>
         (if NUL \<in> set (ip_addrs cg i) then Some (takeWhile (\<lambda>c. c \<noteq> NUL) (ip_addrs cg i))
          else None))"

definition addr_list_entry :: "env \<Rightarrow> cups_globals \<Rightarrow> hostent \<Rightarrow> nat \<Rightarrow> char_ptr option" where
  "addr_list_entry e cg host n =
    (case h_addr_list host of
       NULL_list \<Rightarrow> None
     | Ip_ptrs \<Rightarrow> (if n \<le> CUPS_MAX_ADDRS e then Some (ip_ptrs cg n) else None)
     | Ext_list ps \<Rightarrow> (if n < length ps then Some (ps ! n) else None))"

section \<open>The functions on addresses\<close>

text \<open>\<open>httpAddrEqual()\<close> - Compare two addresses.\<close>

definition httpAddrEqual :: "http_addr_t \<Rightarrow> http_addr_t \<Rightarrow> int" where
  "httpAddrEqual addr1 addr2 =
    (if sa_family addr1 \<noteq> sa_family addr2 then 0
     else if sa_family addr1 = AF_LOCAL then
       (if sun_path addr1 = sun_path addr2 then 1 else 0)
     else if sa_family addr1 = AF_INET6 then
       (if take 16 (sin6_addr addr1) = take 16 (sin6_addr addr2) then 1 else 0)
     else (if sin_addr addr1 = sin_addr addr2 then 1 else 0))"

text \<open>
  \<open>httpAddrLoad()\<close> - Load a host entry address into an HTTP address. The function is
  \<open>void\<close>: the result is the address after the call.
\<close>

definition htons :: "int \<Rightarrow> 16 word" where
  "htons port = word_of_int port"

definition httpAddrLoad ::
  "env \<Rightarrow> cups_globals \<Rightarrow> hostent \<Rightarrow> int \<Rightarrow> nat \<Rightarrow> http_addr_t \<Rightarrow> http_addr_t option" where
  "httpAddrLoad e cg host port n addr =
    (if h_addrtype host = AF_INET6 then
       do {
         p \<leftarrow> addr_list_entry e cg host n;
         src \<leftarrow> bytes_at cg p;
         a \<leftarrow> memcpy (sin6_addr addr) src (h_length host);
         Some (addr\<lparr>sin6_port := htons port, sin6_addr := a, sa_family := AF_INET6\<rparr>)
       }
     else if h_addrtype host = AF_LOCAL then
       do {
         p \<leftarrow> addr_list_entry e cg host n;
         src \<leftarrow> string_at cg p;
         Some (addr\<lparr>sa_family := AF_LOCAL,
                    sun_path := strlcpy (sun_path addr) src (sun_path_size e)\<rparr>)
       }
     else if h_addrtype host = AF_INET then
       do {
         p \<leftarrow> addr_list_entry e cg host n;
         src \<leftarrow> bytes_at cg p;
         a \<leftarrow> memcpy (sin_addr addr) src (h_length host);
         Some (addr\<lparr>sin_port := htons port, sin_addr := a, sa_family := AF_INET\<rparr>)
       }
     else Some addr)"

text \<open>\<open>httpAddrLocalhost()\<close> - Check for the local loopback address.\<close>

definition httpAddrLocalhost :: "http_addr_t \<Rightarrow> int" where
  "httpAddrLocalhost addr =
    (if sa_family addr = AF_INET6 \<and>
        (IN6_IS_ADDR_LOOPBACK (sin6_addr addr) \<or> IN6_IS_ADDR_UNSPECIFIED (sin6_addr addr))
     then 1
     else if sa_family addr = AF_LOCAL then 1
     else if sa_family addr = AF_INET \<and> ntohl (sin_addr addr) = 0x7f000001 then 1
     else 0)"

text \<open>
  \<open>httpAddrString()\<close> - Convert an IP address to a dotted string. The result is the
  string in the buffer \<open>s\<close> after the call.
\<close>

definition httpAddrString :: "http_addr_t \<Rightarrow> string \<Rightarrow> nat \<Rightarrow> string" where
  "httpAddrString addr s slen =
    (if sa_family addr = AF_INET6 then
       snprintf s slen
         (''['' @ printf_x (ntohl (sin6_addr addr)) @ '':'' @
          printf_x (ntohl (drop 4 (sin6_addr addr))) @ '':'' @
          printf_x (ntohl (drop 8 (sin6_addr addr))) @ '':'' @
          printf_x (ntohl (drop 12 (sin6_addr addr))) @ '']'')
     else if sa_family addr = AF_LOCAL then strlcpy s (sun_path addr) slen
     else if sa_family addr = AF_INET then
       (let temp = ntohl (sin_addr addr)
        in snprintf s slen
             (printf_d (drop_bit 24 temp AND 255) @ ''.'' @
              printf_d (drop_bit 16 temp AND 255) @ ''.'' @
              printf_d (drop_bit 8 temp AND 255) @ ''.'' @
              printf_d (temp AND 255)))
     else strlcpy s ''UNKNOWN'' slen)"

text \<open>
  \<open>httpAddrLookup()\<close> - Lookup the hostname associated with the address. The result is
  the pointer returned (\<open>True\<close> for \<open>name\<close>, \<open>False\<close> for null) and the string in the buffer
  \<open>name\<close> after the call; \<open>None\<close> when \<open>host->h_name\<close> cannot be read.
\<close>

definition lookup_result ::
  "cups_globals \<Rightarrow> http_addr_t \<Rightarrow> string \<Rightarrow> nat \<Rightarrow> hostent_ptr \<Rightarrow> (bool \<times> string) option" where
  "lookup_result cg addr name namelen host =
    (if host = NULL_hostent then Some (False, httpAddrString addr name namelen)
     else do {
       h \<leftarrow> deref_hostent cg host;
       src \<leftarrow> string_at cg (h_name h);
       Some (True, strlcpy name src namelen)
     })"

definition httpAddrLookup ::
  "env \<Rightarrow> cups_globals \<Rightarrow> http_addr_t \<Rightarrow> string \<Rightarrow> nat \<Rightarrow> (bool \<times> string) option" where
  "httpAddrLookup e cg addr name namelen =
    (if sa_family addr = AF_INET6 then
       lookup_result cg addr name namelen (gethostbyaddr e (take 16 (sin6_addr addr)) AF_INET6)
     else if sa_family addr = AF_LOCAL then
       Some (True, strlcpy name (sun_path addr) namelen)
     else if sa_family addr = AF_INET then
       lookup_result cg addr name namelen (gethostbyaddr e (take 4 (sin_addr addr)) AF_INET)
     else lookup_result cg addr name namelen NULL_hostent)"

text \<open>
  \<open>httpGetHostByName()\<close> - Lookup a hostname or IP address, and return address records
  for the specified name. The result is the pointer returned and the library globals
  after the call; \<open>None\<close> where C leaves the call undefined (a \<open>%u\<close> whose number does not
  fit \<open>unsigned\<close>, a null \<open>ai_canonname\<close>, a copy from an address that is too short).
\<close>

definition put32 :: "char list \<Rightarrow> nat \<Rightarrow> char list \<Rightarrow> char list" where
  "put32 row i bs = take (4 * i) row @ bs @ drop (4 * i + 4) row"

definition set_row0 :: "cups_globals \<Rightarrow> char list \<Rightarrow> cups_globals" where
  "set_row0 cg row = cg\<lparr>ip_addrs := (ip_addrs cg)(0 := row)\<rparr>"

text \<open>The branch for a domain socket address, \<open>name[0] == '/'\<close>.\<close>

definition local_entry :: "cups_globals \<Rightarrow> string \<Rightarrow> hostent_ptr \<times> cups_globals" where
  "local_entry cg name =
    (let cg1 = cg\<lparr>hostent := (hostent cg)\<lparr>h_name := Ext name, h_aliases := NULL_list,
                   h_addrtype := AF_LOCAL, h_length := int (length name) + 1,
                   h_addr_list := Ip_ptrs\<rparr>\<rparr>;
         cg2 = cg1\<lparr>ip_ptrs := (ip_ptrs cg1)(0 := Ext name, 1 := NULL)\<rparr>
     in (Cg_hostent, cg2))"

text \<open>
  The branch for \<open>name[0] == '['\<close>. \<open>ipv6_groups\<close> is the \<open>for\<close> loop over \<open>i\<close> and
  \<open>nameptr\<close>, on the row \<open>cg->ip_addrs[0]\<close>; it gives \<open>i\<close>, \<open>nameptr\<close> and the row when the
  loop is left. \<open>zero_fill\<close> is the \<open>while\<close> loop after it.
\<close>

function ipv6_groups :: "nat \<Rightarrow> nat \<Rightarrow> string \<Rightarrow> char list \<Rightarrow> nat \<times> string \<times> char list" where
  "ipv6_groups um i nameptr row =
    (if peek nameptr \<noteq> NUL \<and> i < 4 then
       if peek nameptr = CHR '']'' then (i, nameptr, row)
       else
         (let row1 = (if peek nameptr = CHR '':'' then put32 row i (replicate 4 NUL)
                      else put32 row i (htonl (of_nat (fst (strtoul_16 um nameptr)))));
              p1 = (if peek nameptr = CHR '':'' then nameptr else snd (strtoul_16 um nameptr));
              p2 = (if peek p1 = CHR '':'' \<or> peek p1 = CHR '']'' then tl p1 else p1)
          in ipv6_groups um (i + 1) p2 row1)
     else (i, nameptr, row))"
  by pat_completeness auto
termination
  by (relation "measure (\<lambda>(um, i, nameptr, row). 4 - i)") auto

function zero_fill :: "nat \<Rightarrow> char list \<Rightarrow> char list" where
  "zero_fill i row = (if i < 4 then zero_fill (i + 1) (put32 row i (replicate 4 NUL)) else row)"
  by pat_completeness auto
termination
  by (relation "measure (\<lambda>(i, row). 4 - i)") auto

definition ipv6_entry :: "env \<Rightarrow> cups_globals \<Rightarrow> string \<Rightarrow> hostent_ptr \<times> cups_globals" where
  "ipv6_entry e cg name =
    (let cg1 = cg\<lparr>hostent := (hostent cg)\<lparr>h_name := Ext name, h_aliases := NULL_list,
                   h_addrtype := AF_INET6, h_length := 16, h_addr_list := Ip_ptrs\<rparr>\<rparr>;
         cg2 = cg1\<lparr>ip_ptrs := (ip_ptrs cg1)(0 := Ip_addrs 0, 1 := NULL)\<rparr>;
         (i, nameptr, row) = ipv6_groups (ULONG_MAX e) 0 (tl name) (ip_addrs cg2 0);
         cg3 = set_row0 cg2 (zero_fill i row)
     in if peek nameptr \<noteq> NUL then (NULL_hostent, cg3) else (Cg_hostent, cg3))"

text \<open>The branch for a name of digits and dots.\<close>

definition pack :: "32 word list \<Rightarrow> 32 word" where
  "pack ip = push_bit 8 (push_bit 8 (push_bit 8 (ip ! 0) OR ip ! 1) OR ip ! 2) OR ip ! 3"

definition ipv4_entry :: "cups_globals \<Rightarrow> string \<Rightarrow> (hostent_ptr \<times> cups_globals) option" where
  "ipv4_entry cg name =
    (let (count, vs) = sscanf_quad name;
         ip = map of_nat vs :: 32 word list
     in if list_ex (\<lambda>v. 2 ^ 32 \<le> v) vs then None
        else if count \<noteq> 4 then Some (NULL_hostent, cg)
        else if 255 < ip ! 0 \<or> 255 < ip ! 1 \<or> 255 < ip ! 2 \<or> 255 < ip ! 3 then
          Some (NULL_hostent, cg)
        else
          (let cg1 = set_row0 cg (put32 (ip_addrs cg 0) 0 (htonl (pack ip)));
               cg2 = cg1\<lparr>hostent := (hostent cg1)\<lparr>h_name := Ext name, h_aliases := NULL_list,
                         h_addrtype := AF_INET, h_length := 4, h_addr_list := Ip_ptrs\<rparr>\<rparr>;
               cg3 = cg2\<lparr>ip_ptrs := (ip_ptrs cg2)(0 := Ip_addrs 0, 1 := NULL)\<rparr>
           in Some (Cg_hostent, cg3)))"

text \<open>
  The branch under \<open>HAVE_GETADDRINFO\<close>. \<open>copy_addrs\<close> is the loop that copies the
  addresses of the chosen family, from \<open>current\<close> on, with \<open>i\<close> addresses copied so far.
\<close>

fun copy_addrs :: "env \<Rightarrow> addrinfo list \<Rightarrow> nat \<Rightarrow> cups_globals \<Rightarrow> (nat \<times> cups_globals) option" where
  "copy_addrs e [] i cg = Some (i, cg)"
| "copy_addrs e (current # rest) i cg =
    (if i < CUPS_MAX_ADDRS e then
       if ai_family current = h_addrtype (hostent cg) then
         do {
           row \<leftarrow> (if ai_family current = AF_INET then
                     memcpy (ip_addrs cg i) (sin_addr (ai_addr current)) 4
                   else memcpy (ip_addrs cg i) (sin6_addr (ai_addr current)) 16);
           copy_addrs e rest (i + 1)
             (cg\<lparr>ip_addrs := (ip_addrs cg)(i := row),
                 ip_ptrs := (ip_ptrs cg)(i := Ip_addrs i)\<rparr>)
         }
       else copy_addrs e rest i cg
     else Some (i, cg))"

definition first_of_family :: "int \<Rightarrow> addrinfo list \<Rightarrow> addrinfo option" where
  "first_of_family f results = find (\<lambda>current. ai_family current = f) results"

definition resolver_entry :: "env \<Rightarrow> cups_globals \<Rightarrow> string \<Rightarrow> (hostent_ptr \<times> cups_globals) option" where
  "resolver_entry e cg name =
    (case getaddrinfo e name of
       None \<Rightarrow> Some (gethostbyname e name, cg)
     | Some results \<Rightarrow>
        (case (case first_of_family AF_INET6 results of
                 Some current \<Rightarrow> Some current
               | None \<Rightarrow> first_of_family AF_INET results) of
           None \<Rightarrow> Some (gethostbyname e name, cg)
         | Some current \<Rightarrow>
             do {
               canon \<leftarrow> ai_canonname current;
               let cg1 = cg\<lparr>hostname := strlcpy (hostname cg) canon (hostname_size e)\<rparr>;
               let cg2 = cg1\<lparr>hostent := (hostent cg1)\<lparr>h_name := Hostname, h_aliases := NULL_list,
                              h_addrtype := ai_family current, h_addr_list := Ip_ptrs\<rparr>\<rparr>;
               let cg3 = cg2\<lparr>hostent := (hostent cg2)\<lparr>h_length :=
                              (if ai_family current = AF_INET6 then 16 else 4)\<rparr>\<rparr>;
               (i, cg4) \<leftarrow> copy_addrs e results 0 cg3;
               Some (Cg_hostent, cg4\<lparr>ip_ptrs := (ip_ptrs cg4)(i := NULL)\<rparr>)
             }))"

definition httpGetHostByName ::
  "env \<Rightarrow> cups_globals \<Rightarrow> string \<Rightarrow> (hostent_ptr \<times> cups_globals) option" where
  "httpGetHostByName e cg name0 =
    (let name = (if name0 = ''localhost'' then ''127.0.0.1'' else name0)
     in if peek name = CHR ''/'' then Some (local_entry cg name)
        else if peek name = CHR ''['' then Some (ipv6_entry e cg name)
        else if peek (dropWhile (\<lambda>c. isdigit c \<or> c = CHR ''.'') name) = NUL then
          ipv4_entry cg name
        else if HAVE_GETADDRINFO e then resolver_entry e cg name
        else Some (gethostbyname e name, cg))"

text \<open>
  The caller's sequences of the claims. \<open>resolve_addr\<close>: resolve a name and load address
  \<open>n = 0\<close> of the entry into an address. \<open>first_address\<close>: read \<open>host->h_addr_list[0]\<close>
  through a result pointer. \<open>resolve_twice\<close>: two calls in a row; it gives the first result
  and its address as read after the first call, the second result and its address, and
  the address read through the first result after the second call.
\<close>

definition resolve_addr ::
  "env \<Rightarrow> cups_globals \<Rightarrow> string \<Rightarrow> int \<Rightarrow> http_addr_t \<Rightarrow> http_addr_t option" where
  "resolve_addr e cg name port addr =
    do {
      (p, cg1) \<leftarrow> httpGetHostByName e cg name;
      host \<leftarrow> deref_hostent cg1 p;
      httpAddrLoad e cg1 host port 0 addr
    }"

definition first_address :: "env \<Rightarrow> cups_globals \<Rightarrow> hostent_ptr \<Rightarrow> char list option" where
  "first_address e cg p =
    do {
      host \<leftarrow> deref_hostent cg p;
      q \<leftarrow> addr_list_entry e cg host 0;
      bytes_at cg q
    }"

definition resolve_twice ::
  "env \<Rightarrow> cups_globals \<Rightarrow> string \<Rightarrow> string \<Rightarrow>
    (hostent_ptr \<times> char list option \<times> hostent_ptr \<times> char list option \<times> char list option)
      option" where
  "resolve_twice e cg name1 name2 =
    do {
      (p1, cg1) \<leftarrow> httpGetHostByName e cg name1;
      (p2, cg2) \<leftarrow> httpGetHostByName e cg1 name2;
      Some (p1, first_address e cg1 p1, p2, first_address e cg2 p2, first_address e cg2 p1)
    }"

text \<open>
  Concrete data for the examples: an LP64 platform whose resolver knows no name, the
  globals and an address as zeroed memory.
\<close>

definition no_resolver :: env where
  "no_resolver =
    \<lparr>ULONG_MAX = 2 ^ 64 - 1, CUPS_MAX_ADDRS = 100, hostname_size = 1024, sun_path_size = 108,
     HAVE_GETADDRINFO = True, getaddrinfo = (\<lambda>name. None),
     gethostbyname = (\<lambda>name. NULL_hostent), gethostbyaddr = (\<lambda>a t. NULL_hostent)\<rparr>"

definition zero_globals :: cups_globals where
  "zero_globals =
    \<lparr>hostent = \<lparr>h_name = NULL, h_aliases = NULL_list, h_addrtype = 0, h_length = 0,
                h_addr_list = NULL_list\<rparr>,
     ip_ptrs = (\<lambda>i. NULL), ip_addrs = (\<lambda>i. replicate 16 NUL), hostname = []\<rparr>"

definition zero_addr :: http_addr_t where
  "zero_addr =
    \<lparr>sa_family = 0, sin_port = 0, sin_addr = replicate 4 NUL, sin6_port = 0,
     sin6_addr = replicate 16 NUL, sun_path = []\<rparr>"

text \<open>
  The dotted-quad literal in the words of the specification. \<open>components\<close> are the pieces
  of a name between its dots. \<open>dotted_quad\<close>: exactly four components, each a decimal
  number in \<open>[0,255]\<close>. \<open>quad_prefix\<close>: at least four components, the first four of them
  decimal numbers in \<open>[0,255]\<close>.
\<close>

function components :: "string \<Rightarrow> string list" where
  "components s =
    (let f = takeWhile (\<lambda>c. c \<noteq> CHR ''.'') s; r = dropWhile (\<lambda>c. c \<noteq> CHR ''.'') s
     in if r = [] then [f] else f # components (tl r))"
  by pat_completeness auto
termination
proof (relation "measure length")
  fix s f r
  assume "r = dropWhile (\<lambda>c. c \<noteq> CHR ''.'') s" "r \<noteq> []"
  then have "length (tl r) < length r" "length r \<le> length s"
    by (simp_all add: length_dropWhile_le)
  then show "(tl r, s) \<in> measure length" by simp
qed simp

definition dotted_quad :: "string \<Rightarrow> bool" where
  "dotted_quad name =
    (length (components name) = 4 \<and>
     list_all (\<lambda>f. f \<noteq> [] \<and> digits_val 10 f \<le> 255) (components name))"

definition quad_prefix :: "string \<Rightarrow> bool" where
  "quad_prefix name =
    (4 \<le> length (components name) \<and>
     list_all (\<lambda>f. f \<noteq> [] \<and> digits_val 10 f \<le> 255) (take 4 (components name)))"

text \<open>
  The texts of an address in the words of the specification: \<open>dotted\<close> is \<open>a.b.c.d\<close> in
  decimal, \<open>bracketed\<close> is \<open>[g0:g1:g2:g3]\<close> in hexadecimal, \<open>be32\<close> is the number that
  four bytes spell, most significant first. \<open>addr_text\<close> is the text of an address by
  family.
\<close>

definition dotted :: "nat \<Rightarrow> nat \<Rightarrow> nat \<Rightarrow> nat \<Rightarrow> string" where
  "dotted a b c d =
    print_base 10 a @ ''.'' @ print_base 10 b @ ''.'' @ print_base 10 c @ ''.'' @ print_base 10 d"

definition bracketed :: "nat \<Rightarrow> nat \<Rightarrow> nat \<Rightarrow> nat \<Rightarrow> string" where
  "bracketed g0 g1 g2 g3 =
    ''['' @ print_base 16 g0 @ '':'' @ print_base 16 g1 @ '':'' @ print_base 16 g2 @ '':'' @
    print_base 16 g3 @ '']''"

definition be32 :: "char list \<Rightarrow> nat" where
  "be32 bs = foldl (\<lambda>v c. v * 256 + of_char c) 0 (take 4 bs)"

definition addr_text :: "http_addr_t \<Rightarrow> string" where
  "addr_text a =
    (if sa_family a = AF_INET then
       dotted (of_char (sin_addr a ! 0)) (of_char (sin_addr a ! 1)) (of_char (sin_addr a ! 2))
              (of_char (sin_addr a ! 3))
     else if sa_family a = AF_INET6 then
       bracketed (be32 (sin6_addr a)) (be32 (drop 4 (sin6_addr a))) (be32 (drop 8 (sin6_addr a)))
                 (be32 (drop 12 (sin6_addr a)))
     else if sa_family a = AF_LOCAL then sun_path a
     else ''UNKNOWN'')"

declare components.simps [simp del]

declare print_base.simps [simp del]

declare ipv6_groups.simps [simp del]

declare zero_fill.simps [simp del]

section \<open>Bytes and words\<close>

lemma of_char_less_32: "(of_char c :: nat) < 4294967296"
  using nat_of_char_less_256 [of c] by linarith

lemma unat_of_char: "unat (of_char c :: 32 word) = of_char c"
proof -
  have "unat (word_of_nat (of_char c :: nat) :: 32 word) = of_char c"
    using of_char_less_32 [of c] by (simp add: unat_of_nat take_bit_nat_eq_self del: of_nat_of_char)
  then show ?thesis by (simp add: of_nat_of_char)
qed

lemma take_bit_of_char: "take_bit 8 (of_char c :: 32 word) = of_char c"
proof -
  have "take_bit 8 (of_char c :: nat) = of_char c"
    by (simp add: take_bit_nat_eq_self)
  then have "take_bit 8 (word_of_nat (of_char c :: nat) :: 32 word) = word_of_nat (of_char c)"
    by (metis of_nat_take_bit)
  then show ?thesis by (simp add: of_nat_of_char)
qed

lemma bit_of_char: "bit (of_char c :: 32 word) n \<Longrightarrow> n < 8"
proof -
  assume "bit (of_char c :: 32 word) n"
  then have "bit (take_bit 8 (of_char c :: 32 word)) n" by (simp add: take_bit_of_char)
  then show "n < 8" by (simp add: bit_take_bit_iff)
qed

lemma and_255: "(w :: 32 word) AND 255 = take_bit 8 w"
  using take_bit_eq_mask [of 8 w] by (simp add: mask_eq_exp_minus_1)

lemma byte_low: "byte (w AND 255) = byte w"
  unfolding and_255 byte_def
  by (simp add: unsigned_take_bit_eq char_of_take_bit_eq)

lemma byte_of_char: "byte (of_char c) = c"
  by (simp add: byte_def unat_of_char)

lemma ntohl_4: "ntohl [a, b, c, d] =
   push_bit 24 (of_char a) OR push_bit 16 (of_char b) OR push_bit 8 (of_char c) OR of_char d"
  by (simp add: ntohl_def push_bit_or or.assoc)

lemma ntohl_octets:
  "drop_bit 24 (ntohl [a, b, c, d]) AND 255 = of_char a"
  "drop_bit 16 (ntohl [a, b, c, d]) AND 255 = of_char b"
  "drop_bit 8 (ntohl [a, b, c, d]) AND 255 = of_char c"
  "ntohl [a, b, c, d] AND 255 = of_char d"
  unfolding ntohl_4 and_255
  by (rule bit_eqI; auto simp: bit_simps dest: bit_of_char)+

lemma htonl_ntohl: "htonl (ntohl [a, b, c, d]) = [a, b, c, d]"
proof -
  have "byte (drop_bit 24 (ntohl [a, b, c, d])) = a" "byte (drop_bit 16 (ntohl [a, b, c, d])) = b"
       "byte (drop_bit 8 (ntohl [a, b, c, d])) = c" "byte (ntohl [a, b, c, d]) = d"
    using ntohl_octets [of a b c d] byte_low byte_of_char by metis+
  then show ?thesis by (simp add: htonl_def)
qed

lemma word_of_octets:
  fixes w :: "32 word"
  shows "push_bit 24 (take_bit 8 (drop_bit 24 w)) OR push_bit 16 (take_bit 8 (drop_bit 16 w)) OR
        push_bit 8 (take_bit 8 (drop_bit 8 w)) OR take_bit 8 w = w"
proof (rule bit_eqI)
  fix n
  assume "possible_bit TYPE(32 word) n"
  then have n: "n < 32" by (simp add: possible_bit_def)
  consider "n < 8" | "8 \<le> n" "n < 16" | "16 \<le> n" "n < 24" | "24 \<le> n"
    by linarith
  then show "bit (push_bit 24 (take_bit 8 (drop_bit 24 w)) OR push_bit 16 (take_bit 8 (drop_bit 16 w)) OR
        push_bit 8 (take_bit 8 (drop_bit 8 w)) OR take_bit 8 w) n = bit w n"
    using n by cases (auto simp: bit_simps)
qed

lemma of_char_byte: "(of_char (byte w) :: 32 word) = take_bit 8 w"
proof -
  have "(of_nat (of_char (byte w)) :: 32 word) = take_bit 8 w"
    unfolding byte_def
    by (simp add: take_bit_eq_mod unat_mod word_unat_eq_iff unat_of_nat del: of_nat_of_char)
  then show ?thesis by (simp add: of_nat_of_char)
qed

lemma ntohl_htonl: "ntohl (htonl w) = w"
  unfolding htonl_def ntohl_4 of_char_byte by (rule word_of_octets)

lemma list_of_length_4:
  assumes "length bs = 4"
  obtains a b c d where "bs = [a, b, c, d]"
proof -
  from assms obtain a r1 where 1: "bs = a # r1" "length r1 = 3"
    by (cases bs) auto
  then obtain b r2 where 2: "r1 = b # r2" "length r2 = 2"
    by (cases r1) auto
  then obtain c r3 where 3: "r2 = c # r3" "length r3 = 1"
    by (cases r2) auto
  then obtain d where "r3 = [d]"
    by (cases r3) auto
  with 1 2 3 that show thesis by simp
qed

lemma ntohl_eq_iff:
  assumes "length bs = 4"
  shows "ntohl bs = w \<longleftrightarrow> bs = htonl w"
proof -
  from assms obtain a b c d where bs: "bs = [a, b, c, d]"
    by (rule list_of_length_4)
  show ?thesis
    using htonl_ntohl [of a b c d] ntohl_htonl [of w] unfolding bs by metis
qed

lemma or_octet:
  fixes w :: "32 word"
  shows "push_bit 8 w OR of_char c = w * 256 + of_char c"
proof -
  have "push_bit 8 w + of_char c = push_bit 8 w OR of_char c"
  proof (rule disjunctive_add)
    fix n
    show "\<not> bit (push_bit 8 w) n \<or> \<not> bit (of_char c :: 32 word) n"
      using bit_of_char [of c n] by (auto simp: bit_simps)
  qed
  then show ?thesis by (simp add: push_bit_eq_mult)
qed

lemma ntohl_arith: "ntohl bs = word_of_nat (be32 bs)"
proof -
  have "foldl (\<lambda>w c. push_bit 8 w OR of_char c) (word_of_nat v :: 32 word) xs =
        word_of_nat (foldl (\<lambda>v c. v * 256 + of_char c) v xs)" for v xs
  proof (induction xs arbitrary: v)
    case Nil
    show ?case by simp
  next
    case (Cons c xs)
    have "push_bit 8 (word_of_nat v :: 32 word) OR of_char c = word_of_nat (v * 256 + of_char c)"
      unfolding or_octet by (simp add: of_nat_of_char)
    then show ?case using Cons.IH [of "v * 256 + of_char c"] by simp
  qed
  from this [of 0 "take 4 bs"] show ?thesis by (simp add: ntohl_def be32_def)
qed

lemma be32_less: "be32 bs < 2 ^ 32"
proof -
  have "length xs \<le> n \<Longrightarrow> v < 256 ^ (4 - n) \<Longrightarrow> n \<le> 4 \<Longrightarrow>
        foldl (\<lambda>v c. v * 256 + of_char c) v xs < 256 ^ 4" for xs :: "char list" and v n :: nat
  proof (induction xs arbitrary: v n)
    case Nil
    have "(256::nat) ^ (4 - n) \<le> 256 ^ 4" by (rule power_increasing) simp_all
    with Nil show ?case by simp
  next
    case (Cons c xs)
    then obtain m where n: "n = Suc m" by (cases n) auto
    have "v * 256 + of_char c < (v + 1) * 256"
      using nat_of_char_less_256 [of c] by simp
    also have "\<dots> \<le> 256 ^ (4 - n) * 256"
      using Cons.prems(2) by (simp add: Suc_le_eq)
    also have "\<dots> = 256 ^ (4 - m)"
    proof -
      have "4 - m = Suc (4 - n)" using Cons.prems(3) n by simp
      then show ?thesis by simp
    qed
    finally have "v * 256 + of_char c < 256 ^ (4 - m)" .
    then show ?case
      using Cons.IH [of m "v * 256 + of_char c"] Cons.prems n by simp
  qed
  from this [of "take 4 bs" 4 0] show ?thesis by (simp add: be32_def)
qed

lemma unat_ntohl: "unat (ntohl bs) = be32 bs"
  unfolding ntohl_arith using be32_less [of bs]
  by (simp add: unat_of_nat take_bit_nat_eq_self)

section \<open>Names of digits and dots\<close>

lemma digdot_takeWhile:
  assumes "\<forall>c\<in>set s. isdigit c \<or> c = CHR ''.''"
  shows "takeWhile isdigit s = takeWhile (\<lambda>c. c \<noteq> CHR ''.'') s"
  using assms by (induction s) (auto simp: isdigit_def)

lemma digdot_dropWhile:
  assumes "\<forall>c\<in>set s. isdigit c \<or> c = CHR ''.''"
  shows "dropWhile isdigit s = dropWhile (\<lambda>c. c \<noteq> CHR ''.'') s"
  using assms by (induction s) (auto simp: isdigit_def)

lemma peek_dropWhile_dot:
  "dropWhile (\<lambda>c. c \<noteq> CHR ''.'') s \<noteq> [] \<Longrightarrow> peek (dropWhile (\<lambda>c. c \<noteq> CHR ''.'') s) = CHR ''.''"
  using hd_dropWhile [of "\<lambda>c. c \<noteq> CHR ''.''" s]
  by (cases "dropWhile (\<lambda>c. c \<noteq> CHR ''.'') s") (auto simp: peek_def)

lemma digdot_tl_dropWhile:
  assumes "\<forall>c\<in>set s. isdigit c \<or> c = CHR ''.''"
  shows "\<forall>c\<in>set (tl (dropWhile (\<lambda>c. c \<noteq> CHR ''.'') s)). isdigit c \<or> c = CHR ''.''"
proof
  fix c
  assume "c \<in> set (tl (dropWhile (\<lambda>c. c \<noteq> CHR ''.'') s))"
  then have "c \<in> set (dropWhile (\<lambda>c. c \<noteq> CHR ''.'') s)"
    by (cases "dropWhile (\<lambda>c. c \<noteq> CHR ''.'') s") auto
  then have "c \<in> set s" by (rule set_dropWhileD)
  with assms show "isdigit c \<or> c = CHR ''.''" by simp
qed

lemma components_last:
  "dropWhile (\<lambda>c. c \<noteq> CHR ''.'') s = [] \<Longrightarrow> components s = [takeWhile (\<lambda>c. c \<noteq> CHR ''.'') s]"
  by (subst components.simps) (simp add: Let_def del: dropWhile_eq_Nil_conv)

lemma components_more:
  "dropWhile (\<lambda>c. c \<noteq> CHR ''.'') s \<noteq> [] \<Longrightarrow>
   components s = takeWhile (\<lambda>c. c \<noteq> CHR ''.'') s # components (tl (dropWhile (\<lambda>c. c \<noteq> CHR ''.'') s))"
  by (subst components.simps) (simp add: Let_def del: dropWhile_eq_Nil_conv)

lemma scan_fields_Suc:
  "scan_fields (Suc k) p =
    (if takeWhile isdigit p = [] then []
     else digits_val 10 (takeWhile isdigit p) #
          (if k = 0 then []
           else if peek (dropWhile isdigit p) = CHR ''.'' then scan_fields k (tl (dropWhile isdigit p))
           else []))"
  by (simp add: scan_u_def Let_def)

lemma scan_fields_components:
  assumes "\<forall>c\<in>set s. isdigit c \<or> c = CHR ''.''"
  shows "scan_fields k s = map (digits_val 10) (takeWhile (\<lambda>f. f \<noteq> []) (take k (components s)))"
  using assms
proof (induction k arbitrary: s)
  case 0
  then show ?case by simp
next
  case (Suc k)
  let ?f = "takeWhile (\<lambda>c. c \<noteq> CHR ''.'') s"
  let ?r = "dropWhile (\<lambda>c. c \<noteq> CHR ''.'') s"
  have tw: "takeWhile isdigit s = ?f" and dw: "dropWhile isdigit s = ?r"
    using Suc.prems by (rule digdot_takeWhile, rule digdot_dropWhile)
  show ?case
  proof (cases "?r = []")
    case True
    then have "peek ?r = NUL" by (simp only: peek_def list.case)
    then have p: "peek ?r \<noteq> CHR ''.''" by (simp add: NUL_def)
    show ?thesis
      unfolding scan_fields_Suc tw dw components_last [OF True] using p by simp
  next
    case False
    have ih: "scan_fields k (tl ?r) =
        map (digits_val 10) (takeWhile (\<lambda>f. f \<noteq> []) (take k (components (tl ?r))))"
      using Suc.IH [OF digdot_tl_dropWhile [OF Suc.prems]] .
    show ?thesis
      unfolding scan_fields_Suc tw dw components_more [OF False] ih
      using peek_dropWhile_dot [OF False] by simp
  qed
qed


lemma word_gt_255:
  assumes "a < 2 ^ 32"
  shows "255 < (word_of_nat a :: 32 word) \<longleftrightarrow> 255 < a"
proof -
  have "unat (word_of_nat a :: 32 word) = a"
    using assms by (simp add: unat_of_nat take_bit_nat_eq_self)
  then show ?thesis by (simp add: word_less_nat_alt)
qed

lemma word_of_octet:
  assumes "a \<le> 255"
  shows "(of_char (char_of a) :: 32 word) = word_of_nat a"
proof -
  have "(of_char (char_of a) :: nat) = a" using assms by simp
  then have "(word_of_nat (of_char (char_of a) :: nat) :: 32 word) = word_of_nat a" by simp
  then show ?thesis by (simp only: of_nat_of_char)
qed

lemma htonl_pack:
  assumes "a \<le> 255" "b \<le> 255" "c \<le> 255" "d \<le> 255"
  shows "htonl (pack [word_of_nat a, word_of_nat b, word_of_nat c, word_of_nat d]) =
         [char_of a, char_of b, char_of c, char_of d]"
proof -
  have "pack [word_of_nat a, word_of_nat b, word_of_nat c, word_of_nat d] =
        ntohl [char_of a, char_of b, char_of c, char_of d]"
    unfolding ntohl_4 word_of_octet [OF assms(1)] word_of_octet [OF assms(2)]
      word_of_octet [OF assms(3)] word_of_octet [OF assms(4)]
    by (simp add: pack_def push_bit_or or.assoc)
  then show ?thesis by (simp only: htonl_ntohl)
qed

lemma ipv4_entry_success:
  assumes "name \<noteq> []" and "scan_fields 4 name = [a, b, c, d]"
    and "a \<le> 255" "b \<le> 255" "c \<le> 255" "d \<le> 255"
  shows "ipv4_entry cg name =
    Some (Cg_hostent,
      cg\<lparr>ip_addrs := (ip_addrs cg)(0 := [char_of a, char_of b, char_of c, char_of d] @ drop 4 (ip_addrs cg 0)),
         hostent := \<lparr>h_name = Ext name, h_aliases = NULL_list, h_addrtype = AF_INET, h_length = 4,
                     h_addr_list = Ip_ptrs\<rparr>,
         ip_ptrs := (ip_ptrs cg)(0 := Ip_addrs 0, 1 := NULL)\<rparr>)"
proof -
  have lt: "a < 2 ^ 32" "b < 2 ^ 32" "c < 2 ^ 32" "d < 2 ^ 32"
    using assms(3-6) by simp_all
  have w: "\<not> 255 < (word_of_nat a :: 32 word)" "\<not> 255 < (word_of_nat b :: 32 word)"
          "\<not> 255 < (word_of_nat c :: 32 word)" "\<not> 255 < (word_of_nat d :: 32 word)"
    using assms(3-6) lt by (simp_all only: word_gt_255 not_less)
  have s: "sscanf_quad name = (4, [a, b, c, d])"
    using assms(1,2) by (simp add: sscanf_quad_def)
  show ?thesis
    unfolding ipv4_entry_def s
    using w lt by (simp add: htonl_pack [OF assms(3-6)] set_row0_def put32_def)
qed

lemma ipv4_entry_failure:
  assumes "\<not> list_ex (\<lambda>v. 2 ^ 32 \<le> v) (scan_fields 4 name)"
    and "length (scan_fields 4 name) \<noteq> 4 \<or> list_ex (\<lambda>v. 255 < v) (scan_fields 4 name)"
  shows "ipv4_entry cg name = Some (NULL_hostent, cg)"
proof (cases "name \<noteq> [] \<and> length (scan_fields 4 name) = 4")
  case False
  then show ?thesis
    using assms(1) by (auto simp: ipv4_entry_def sscanf_quad_def EOF_def Let_def)
next
  case True
  then obtain a b c d where v: "scan_fields 4 name = [a, b, c, d]"
    using list_of_length_4 by blast
  from assms(1) have lt: "a < 2 ^ 32" "b < 2 ^ 32" "c < 2 ^ 32" "d < 2 ^ 32"
    unfolding v by simp_all
  from assms(2) True have "255 < a \<or> 255 < b \<or> 255 < c \<or> 255 < d"
    unfolding v by simp
  then have "255 < (word_of_nat a :: 32 word) \<or> 255 < (word_of_nat b :: 32 word) \<or>
             255 < (word_of_nat c :: 32 word) \<or> 255 < (word_of_nat d :: 32 word)"
    using lt by (simp only: word_gt_255)
  moreover have s: "sscanf_quad name = (4, [a, b, c, d])"
    using True v by (simp add: sscanf_quad_def)
  ultimately show ?thesis
    unfolding ipv4_entry_def s using lt by auto
qed

lemma ipv4_entry_entry:
  assumes "ipv4_entry cg name = Some (Cg_hostent, cg')"
  shows "name \<noteq> [] \<and> length (scan_fields 4 name) = 4 \<and> \<not> list_ex (\<lambda>v. 255 < v) (scan_fields 4 name)"
proof -
  have 1: "\<not> list_ex (\<lambda>v. 2 ^ 32 \<le> v) (scan_fields 4 name)"
    using assms by (auto simp: ipv4_entry_def sscanf_quad_def Let_def EOF_def split: if_splits)
  have 2: "name \<noteq> []"
    using assms by (auto simp: ipv4_entry_def sscanf_quad_def Let_def EOF_def split: if_splits)
  have "\<not> (length (scan_fields 4 name) \<noteq> 4 \<or> list_ex (\<lambda>v. 255 < v) (scan_fields 4 name))"
    using ipv4_entry_failure [OF 1, of cg] assms by auto
  with 2 show ?thesis by simp
qed


lemma digdot_dropWhile_all:
  assumes "\<forall>c\<in>set s. isdigit c \<or> c = CHR ''.''"
  shows "dropWhile (\<lambda>c. isdigit c \<or> c = CHR ''.'') s = []"
  using assms by simp

lemma digdot_branch:
  assumes "\<forall>c\<in>set name. isdigit c \<or> c = CHR ''.''"
  shows "httpGetHostByName e cg name = ipv4_entry cg name"
proof -
  have 1: "name \<noteq> ''localhost''"
    using assms by (auto simp: isdigit_def)
  have 2: "peek name \<noteq> CHR ''/''" "peek name \<noteq> CHR ''[''"
    using assms by (cases name; auto simp: peek_def NUL_def isdigit_def)+
  show ?thesis
    using 1 2 by (simp add: httpGetHostByName_def digdot_dropWhile_all [OF assms] peek_def)
qed

lemma quad_prefix_scan:
  assumes "\<forall>c\<in>set name. isdigit c \<or> c = CHR ''.''"
  shows "quad_prefix name \<longleftrightarrow>
         length (scan_fields 4 name) = 4 \<and> \<not> list_ex (\<lambda>v. 255 < v) (scan_fields 4 name)"
proof -
  let ?fs = "take 4 (components name)"
  have sc: "scan_fields 4 name = map (digits_val 10) (takeWhile (\<lambda>f. f \<noteq> []) ?fs)"
    using assms by (rule scan_fields_components)
  show ?thesis
  proof (cases "list_all (\<lambda>f. f \<noteq> []) ?fs")
    case True
    then have tw: "takeWhile (\<lambda>f. f \<noteq> []) ?fs = ?fs"
      by (simp add: list_all_iff)
    show ?thesis
      using True unfolding sc tw quad_prefix_def
      by (auto simp: list_all_iff list_ex_iff not_less)
  next
    case False
    then have "takeWhile (\<lambda>f. f \<noteq> []) ?fs \<noteq> ?fs"
      by (simp add: list_all_iff takeWhile_eq_all_conv)
    then have "length (takeWhile (\<lambda>f. f \<noteq> []) ?fs) \<noteq> length ?fs"
      by (metis takeWhile_eq_take take_all order_refl)
    then have "length (takeWhile (\<lambda>f. f \<noteq> []) ?fs) < length ?fs"
      using length_takeWhile_le [of "\<lambda>f. f \<noteq> []" ?fs] by linarith
    then have "length (scan_fields 4 name) < 4"
      unfolding sc by simp
    then show ?thesis
      using False unfolding quad_prefix_def by (auto simp: list_all_iff)
  qed
qed

lemma scan_fields_subset:
  assumes "\<forall>c\<in>set name. isdigit c \<or> c = CHR ''.''"
    and "list_all (\<lambda>f. digits_val 10 f < 2 ^ 32) (components name)"
  shows "\<not> list_ex (\<lambda>v. 2 ^ 32 \<le> v) (scan_fields 4 name)"
proof -
  have "set (takeWhile (\<lambda>f. f \<noteq> []) (take 4 (components name))) \<subseteq> set (components name)"
    using set_takeWhileD set_take_subset by fast
  then show ?thesis
    using assms(2) unfolding scan_fields_components [OF assms(1)]
    by (fastforce simp: list_all_iff list_ex_iff)
qed

lemma quad_prefix_fields:
  assumes "\<forall>c\<in>set name. isdigit c \<or> c = CHR ''.''" and "quad_prefix name"
  obtains a b c d where "take 4 (components name) = [a, b, c, d]"
    and "scan_fields 4 name = [digits_val 10 a, digits_val 10 b, digits_val 10 c, digits_val 10 d]"
    and "digits_val 10 a \<le> 255" "digits_val 10 b \<le> 255" "digits_val 10 c \<le> 255"
        "digits_val 10 d \<le> 255" "name \<noteq> []"
proof -
  from assms(2) have "length (take 4 (components name)) = 4"
    by (simp add: quad_prefix_def)
  then obtain a b c d where t: "take 4 (components name) = [a, b, c, d]"
    by (rule list_of_length_4)
  from assms(2) have ne: "a \<noteq> []" "b \<noteq> []" "c \<noteq> []" "d \<noteq> []"
    and le: "digits_val 10 a \<le> 255" "digits_val 10 b \<le> 255" "digits_val 10 c \<le> 255"
        "digits_val 10 d \<le> 255"
    unfolding quad_prefix_def t by simp_all
  have s: "scan_fields 4 name = [digits_val 10 a, digits_val 10 b, digits_val 10 c, digits_val 10 d]"
    unfolding scan_fields_components [OF assms(1)] t using ne by simp
  have "components [] = [[]]" by (simp add: components.simps)
  with t have "name \<noteq> []" by auto
  with t s le that show thesis by blast
qed

lemma quad_prefix_entry:
  assumes "\<forall>c\<in>set name. isdigit c \<or> c = CHR ''.''" and q: "quad_prefix name"
  shows "httpGetHostByName e cg name =
              Some (Cg_hostent,
                cg\<lparr>ip_addrs := (ip_addrs cg)
                      (0 := map (\<lambda>f. char_of (digits_val 10 f)) (take 4 (components name)) @
                            drop 4 (ip_addrs cg 0)),
                   hostent := \<lparr>h_name = Ext name, h_aliases = NULL_list, h_addrtype = AF_INET,
                               h_length = 4, h_addr_list = Ip_ptrs\<rparr>,
                   ip_ptrs := (ip_ptrs cg)(0 := Ip_addrs 0, 1 := NULL)\<rparr>)"
proof -
  from assms obtain a b c d where t: "take 4 (components name) = [a, b, c, d]"
    and s: "scan_fields 4 name = [digits_val 10 a, digits_val 10 b, digits_val 10 c, digits_val 10 d]"
    and le: "digits_val 10 a \<le> 255" "digits_val 10 b \<le> 255" "digits_val 10 c \<le> 255"
      "digits_val 10 d \<le> 255" and ne: "name \<noteq> []"
    by (rule quad_prefix_fields)
  show ?thesis
    unfolding digdot_branch [OF assms(1)] t ipv4_entry_success [OF ne s le] by simp
qed

section \<open>Texts of numbers and addresses\<close>

lemma digit_char_10: "d < 10 \<Longrightarrow> isdigit (digit_char d) \<and> digit_val (digit_char d) = d"
  by (simp add: isdigit_def digit_val_def digit_char_def)

lemma print_base_10_digits: "c \<in> set (print_base 10 n) \<Longrightarrow> isdigit c"
proof (induction "10 :: nat" n arbitrary: c rule: print_base.induct)
  case (1 n)
  show ?case
  proof (cases "n < 10")
    case True
    with "1.prems" show ?thesis
      by (simp add: print_base.simps [of 10 n] digit_char_10)
  next
    case False
    with "1.prems" "1.hyps" show ?thesis
      by (auto simp: print_base.simps [of 10 n] digit_char_10)
  qed
qed

lemma print_base_nonempty: "print_base b n \<noteq> []"
  by (subst print_base.simps) simp

lemma digits_val_snoc: "digits_val b (ds @ [c]) = digits_val b ds * b + digit_val c"
  by (simp add: digits_val_def)

lemma digits_val_print_base: "digits_val 10 (print_base 10 n) = n"
proof (induction "10 :: nat" n rule: print_base.induct)
  case (1 n)
  show ?case
  proof (cases "n < 10")
    case True
    then show ?thesis
      by (simp add: print_base.simps [of 10 n] digits_val_def digit_char_10)
  next
    case False
    with "1.hyps" show ?thesis
      by (simp add: print_base.simps [of 10 n] digits_val_snoc digit_char_10)
  qed
qed

lemma isdigit_not_dot: "isdigit c \<Longrightarrow> c \<noteq> CHR ''.''"
  by (auto simp: isdigit_def)

lemma components_number:
  assumes "\<forall>c\<in>set ds. isdigit c"
  shows "components (ds @ CHR ''.'' # rest) = ds # components rest"
    and "components ds = [ds]"
proof -
  have nd: "\<forall>c\<in>set ds. c \<noteq> CHR ''.''"
    using assms isdigit_not_dot by blast
  then have "takeWhile (\<lambda>c. c \<noteq> CHR ''.'') (ds @ CHR ''.'' # rest) = ds"
    and "dropWhile (\<lambda>c. c \<noteq> CHR ''.'') (ds @ CHR ''.'' # rest) = CHR ''.'' # rest"
    by (simp_all add: takeWhile_append2 dropWhile_append2)
  then show "components (ds @ CHR ''.'' # rest) = ds # components rest"
    by (subst components.simps) (simp add: Let_def)
  from nd show "components ds = [ds]"
    by (subst components.simps) (simp add: Let_def)
qed

lemma components_dotted:
  "components (dotted a b c d) =
     [print_base 10 a, print_base 10 b, print_base 10 c, print_base 10 d]"
  unfolding dotted_def
  by (simp add: components_number print_base_10_digits)

lemma digdot_dotted: "\<forall>x\<in>set (dotted a b c d). isdigit x \<or> x = CHR ''.''"
  unfolding dotted_def using print_base_10_digits by auto

lemma quad_prefix_dotted:
  assumes "a \<le> 255" "b \<le> 255" "c \<le> 255" "d \<le> 255"
  shows "quad_prefix (dotted a b c d)"
  using assms
  by (simp add: quad_prefix_def components_dotted print_base_nonempty digits_val_print_base)

lemma resolve_addr_quad:
  assumes "\<forall>c\<in>set name. isdigit c \<or> c = CHR ''.''" and "quad_prefix name"
    and "length (sin_addr addr) = 4"
  shows "resolve_addr e cg name port addr =
    Some (addr\<lparr>sin_port := htons port,
               sin_addr := map (\<lambda>f. char_of (digits_val 10 f)) (take 4 (components name)),
               sa_family := AF_INET\<rparr>)"
proof -
  from assms(1,2) obtain a b c d where t: "take 4 (components name) = [a, b, c, d]"
    and s: "scan_fields 4 name = [digits_val 10 a, digits_val 10 b, digits_val 10 c, digits_val 10 d]"
    and le: "digits_val 10 a \<le> 255" "digits_val 10 b \<le> 255" "digits_val 10 c \<le> 255"
      "digits_val 10 d \<le> 255" and ne: "name \<noteq> []"
    by (rule quad_prefix_fields)
  show ?thesis
    unfolding resolve_addr_def digdot_branch [OF assms(1)] t ipv4_entry_success [OF ne s le]
    using assms(3)
    by (simp add: deref_hostent_def httpAddrLoad_def addr_list_entry_def bytes_at_def memcpy_def
                  AF_INET_def AF_INET6_def AF_LOCAL_def)
qed

lemma printf_d_octet: "printf_d (of_char c) = print_base 10 (of_char c)"
proof -
  have "(of_char c :: nat) < 2147483648"
    using nat_of_char_less_256 [of c] by linarith
  then show ?thesis by (simp add: printf_d_def unat_of_char)
qed

lemma httpAddrString_ipv4:
  assumes "sa_family a = AF_INET" and "sin_addr a = [b0, b1, b2, b3]"
  shows "httpAddrString a s slen =
         snprintf s slen (dotted (of_char b0) (of_char b1) (of_char b2) (of_char b3))"
  using assms
  by (simp add: httpAddrString_def AF_INET_def AF_INET6_def AF_LOCAL_def Let_def ntohl_octets
                printf_d_octet dotted_def)

lemma snprintf_fits: "length text < slen \<Longrightarrow> snprintf s slen text = text"
  by (simp add: snprintf_def)

lemma strlcpy_fits: "length text < slen \<Longrightarrow> strlcpy s text slen = text"
  by (simp add: strlcpy_def)

lemma bytes_of_zero_addr: "length (sin_addr zero_addr) = 4"
  by (simp add: zero_addr_def)

lemma components_loopback: "components ''127.0.0.1'' = [''127'', ''0'', ''0'', ''1'']"
  by (simp add: components.simps)

lemma loopback_literal:
  "\<forall>c\<in>set ''127.0.0.1''. isdigit c \<or> c = CHR ''.''" "quad_prefix ''127.0.0.1''"
  "map (\<lambda>f. char_of (digits_val 10 f)) (take 4 (components ''127.0.0.1'')) =
     [CHR 0x7F, CHR 0x00, CHR 0x00, CHR 0x01]"
  by (simp_all add: quad_prefix_def components_loopback digits_val_def digit_val_def isdigit_def
                    char_of_def bit_Suc_0_iff)

lemma localhost_substituted:
  "httpGetHostByName e cg ''localhost'' = httpGetHostByName e cg ''127.0.0.1''"
  by (simp add: httpGetHostByName_def)

lemma httpAddrString_nonempty:
  assumes "sa_family a \<noteq> AF_LOCAL" and "2 \<le> slen"
  shows "httpAddrString a s slen \<noteq> []"
proof -
  have t: "w \<noteq> [] \<Longrightarrow> snprintf s slen w \<noteq> []" "w \<noteq> [] \<Longrightarrow> strlcpy s w slen \<noteq> []"
    for w
    using assms(2) by (simp_all add: snprintf_def strlcpy_def)
  show ?thesis
    using assms(1)
    by (simp add: httpAddrString_def Let_def t printf_d_def print_base_nonempty)
qed

lemma loopback_text:
  "httpAddrString (zero_addr\<lparr>sa_family := AF_INET,
       sin_addr := [CHR 0x7F, CHR 0x00, CHR 0x00, CHR 0x01]\<rparr>) [] namelen =
   snprintf [] namelen ''127.0.0.1''"
  using httpAddrString_ipv4 [of "zero_addr\<lparr>sa_family := AF_INET,
       sin_addr := [CHR 0x7F, CHR 0x00, CHR 0x00, CHR 0x01]\<rparr>" "CHR 0x7F" "CHR 0x00" "CHR 0x00"
       "CHR 0x01" "[]" namelen]
  by (simp add: dotted_def print_base.simps digit_char_def char_of_def bit_Suc_0_iff)

section \<open>The claims on the address functions\<close>

text \<open>
  C10. For every host entry whose address type is none of \<open>AF_INET6\<close>, \<open>AF_LOCAL\<close> and
  \<open>AF_INET\<close>, \<open>httpAddrLoad\<close> reads nothing, signals nothing and leaves every field of the
  address as it was.
\<close>

theorem httpAddrLoad_other_family:
  assumes "h_addrtype host \<noteq> AF_INET6" and "h_addrtype host \<noteq> AF_LOCAL"
    and "h_addrtype host \<noteq> AF_INET"
  shows "httpAddrLoad e cg host port n addr = Some addr"
  using assms by (simp add: httpAddrLoad_def)

theorem httpAddrLoad_other_family_witness:
  "h_addrtype (hostent zero_globals) \<noteq> AF_INET6 \<and>
   h_addrtype (hostent zero_globals) \<noteq> AF_LOCAL \<and>
   h_addrtype (hostent zero_globals) \<noteq> AF_INET \<and>
   httpAddrLoad no_resolver zero_globals (hostent zero_globals) 631 0 zero_addr = Some zero_addr"
proof -
  have h: "h_addrtype (hostent zero_globals) \<noteq> AF_INET6"
          "h_addrtype (hostent zero_globals) \<noteq> AF_LOCAL"
          "h_addrtype (hostent zero_globals) \<noteq> AF_INET"
    by (simp_all add: zero_globals_def AF_INET6_def AF_LOCAL_def AF_INET_def)
  show ?thesis
    using h httpAddrLoad_other_family [OF h, of no_resolver zero_globals 631 0 zero_addr]
    by simp
qed

text \<open>
  C5. \<open>httpAddrEqual\<close> is 0 when the families differ. With equal families it compares
  the paths for \<open>AF_LOCAL\<close>, the 16 address bytes for \<open>AF_INET6\<close>, and the IPv4 address
  otherwise. No port is read: changing the ports of either address does not change the
  result, and two addresses of one family with the same address fields are equal
  whatever their ports are.
\<close>

theorem httpAddrEqual_ignores_port:
  "(sa_family a \<noteq> sa_family b \<longrightarrow> httpAddrEqual a b = 0) \<and>
   (sa_family a = sa_family b \<and> sa_family a = AF_LOCAL \<longrightarrow>
      httpAddrEqual a b = (if sun_path a = sun_path b then 1 else 0)) \<and>
   (sa_family a = sa_family b \<and> sa_family a = AF_INET6 \<longrightarrow>
      httpAddrEqual a b = (if take 16 (sin6_addr a) = take 16 (sin6_addr b) then 1 else 0)) \<and>
   (sa_family a = sa_family b \<and> sa_family a \<noteq> AF_LOCAL \<and> sa_family a \<noteq> AF_INET6 \<longrightarrow>
      httpAddrEqual a b = (if sin_addr a = sin_addr b then 1 else 0)) \<and>
   httpAddrEqual (a\<lparr>sin_port := p, sin6_port := p6\<rparr>) (b\<lparr>sin_port := q, sin6_port := q6\<rparr>) =
     httpAddrEqual a b \<and>
   (sa_family a = sa_family b \<and> sun_path a = sun_path b \<and> sin6_addr a = sin6_addr b \<and>
    sin_addr a = sin_addr b \<longrightarrow> httpAddrEqual a b = 1)"
  by (simp add: httpAddrEqual_def AF_INET6_def AF_LOCAL_def AF_INET_def)

theorem httpAddrEqual_ignores_port_witness:
  "sa_family (zero_addr\<lparr>sa_family := AF_INET, sin_port := 631\<rparr>) =
     sa_family (zero_addr\<lparr>sa_family := AF_INET, sin_port := 80\<rparr>) \<and>
   sin_port (zero_addr\<lparr>sa_family := AF_INET, sin_port := 631\<rparr>) \<noteq>
     sin_port (zero_addr\<lparr>sa_family := AF_INET, sin_port := 80\<rparr>) \<and>
   httpAddrEqual (zero_addr\<lparr>sa_family := AF_INET, sin_port := 631\<rparr>)
                 (zero_addr\<lparr>sa_family := AF_INET, sin_port := 80\<rparr>) = 1 \<and>
   httpAddrEqual (zero_addr\<lparr>sa_family := AF_INET\<rparr>) (zero_addr\<lparr>sa_family := AF_INET6\<rparr>) = 0"
  using httpAddrEqual_ignores_port [of "zero_addr\<lparr>sa_family := AF_INET, sin_port := 631\<rparr>"
          "zero_addr\<lparr>sa_family := AF_INET, sin_port := 80\<rparr>"]
        httpAddrEqual_ignores_port [of "zero_addr\<lparr>sa_family := AF_INET\<rparr>"
          "zero_addr\<lparr>sa_family := AF_INET6\<rparr>"]
  by (simp add: AF_INET_def AF_INET6_def)

text \<open>
  C6. \<open>httpAddrLocalhost\<close> is 1 exactly for an IPv6 address that is the loopback or the
  unspecified address, for every Unix-domain address, and for the IPv4 address whose
  four bytes are 127.0.0.1; it is 0 otherwise, in particular for 127.0.0.2.
\<close>

theorem httpAddrLocalhost_iff:
  assumes "length (sin_addr a) = 4"
  shows "(httpAddrLocalhost a = 1 \<longleftrightarrow>
            sa_family a = AF_INET6 \<and>
              (take 16 (sin6_addr a) = replicate 15 NUL @ [CHR 0x01] \<or>
               take 16 (sin6_addr a) = replicate 16 NUL) \<or>
            sa_family a = AF_LOCAL \<or>
            sa_family a = AF_INET \<and> sin_addr a = [CHR 0x7F, CHR 0x00, CHR 0x00, CHR 0x01]) \<and>
         (httpAddrLocalhost a \<noteq> 1 \<longrightarrow> httpAddrLocalhost a = 0) \<and>
         (sa_family a = AF_INET \<and> sin_addr a = [CHR 0x7F, CHR 0x00, CHR 0x00, CHR 0x02] \<longrightarrow>
            httpAddrLocalhost a = 0)"
proof -
  have "ntohl [CHR 0x7F, CHR 0x00, CHR 0x00, CHR 0x01] = 0x7f000001"
    by (simp add: ntohl_def)
  then have l: "htonl 0x7f000001 = [CHR 0x7F, CHR 0x00, CHR 0x00, CHR 0x01]"
    using htonl_ntohl [of "CHR 0x7F" "CHR 0x00" "CHR 0x00" "CHR 0x01"] by simp
  have "ntohl (sin_addr a) = 0x7f000001 \<longleftrightarrow>
        sin_addr a = [CHR 0x7F, CHR 0x00, CHR 0x00, CHR 0x01]"
    using ntohl_eq_iff [OF assms, of "0x7f000001"] l by simp
  then show ?thesis
    by (auto simp: httpAddrLocalhost_def IN6_IS_ADDR_LOOPBACK_def IN6_IS_ADDR_UNSPECIFIED_def
                   AF_INET6_def AF_LOCAL_def AF_INET_def)
qed

theorem httpAddrLocalhost_iff_witness:
  "length (sin_addr (zero_addr\<lparr>sa_family := AF_INET,
       sin_addr := [CHR 0x7F, CHR 0x00, CHR 0x00, CHR 0x01]\<rparr>)) = 4 \<and>
   httpAddrLocalhost (zero_addr\<lparr>sa_family := AF_INET,
       sin_addr := [CHR 0x7F, CHR 0x00, CHR 0x00, CHR 0x01]\<rparr>) = 1 \<and>
   length (sin_addr (zero_addr\<lparr>sa_family := AF_INET,
       sin_addr := [CHR 0x7F, CHR 0x00, CHR 0x00, CHR 0x02]\<rparr>)) = 4 \<and>
   httpAddrLocalhost (zero_addr\<lparr>sa_family := AF_INET,
       sin_addr := [CHR 0x7F, CHR 0x00, CHR 0x00, CHR 0x02]\<rparr>) = 0"
  using httpAddrLocalhost_iff [of "zero_addr\<lparr>sa_family := AF_INET,
            sin_addr := [CHR 0x7F, CHR 0x00, CHR 0x00, CHR 0x01]\<rparr>"]
        httpAddrLocalhost_iff [of "zero_addr\<lparr>sa_family := AF_INET,
            sin_addr := [CHR 0x7F, CHR 0x00, CHR 0x00, CHR 0x02]\<rparr>"]
  by (simp add: AF_INET_def AF_INET6_def AF_LOCAL_def)

text \<open>
  C7. With a buffer that holds the whole text, \<open>httpAddrString\<close> leaves in it: for
  \<open>AF_INET\<close> the four address bytes in decimal, separated by dots; for \<open>AF_INET6\<close> the four
  32-bit groups of the address, each the number of its four bytes in network order, in
  hexadecimal between brackets and separated by colons; for \<open>AF_LOCAL\<close> the path; for every
  other family the text \<open>UNKNOWN\<close>.
\<close>

theorem httpAddrString_text:
  assumes "length (sin_addr a) = 4" and "length (addr_text a) < slen"
  shows "httpAddrString a s slen = addr_text a"
proof -
  from assms(1) obtain b0 b1 b2 b3 where bs: "sin_addr a = [b0, b1, b2, b3]"
    by (rule list_of_length_4)
  consider "sa_family a = AF_INET" | "sa_family a = AF_INET6" | "sa_family a = AF_LOCAL"
    | "sa_family a \<noteq> AF_INET" "sa_family a \<noteq> AF_INET6" "sa_family a \<noteq> AF_LOCAL"
    by blast
  then show ?thesis
  proof cases
    case 1
    then have t: "addr_text a = dotted (of_char b0) (of_char b1) (of_char b2) (of_char b3)"
      by (simp add: addr_text_def bs)
    show ?thesis
      using assms(2) unfolding httpAddrString_ipv4 [OF 1 bs] t by (rule snprintf_fits)
  next
    case 2
    then have t: "addr_text a = bracketed (be32 (sin6_addr a)) (be32 (drop 4 (sin6_addr a)))
        (be32 (drop 8 (sin6_addr a))) (be32 (drop 12 (sin6_addr a)))"
      by (simp add: addr_text_def AF_INET_def AF_INET6_def)
    have "httpAddrString a s slen = snprintf s slen (addr_text a)"
      unfolding t using 2
      by (simp add: httpAddrString_def printf_x_def unat_ntohl bracketed_def)
    then show ?thesis using assms(2) by (simp add: snprintf_fits)
  next
    case 3
    then show ?thesis
      using assms(2)
      by (simp add: httpAddrString_def addr_text_def AF_INET_def AF_INET6_def AF_LOCAL_def strlcpy_fits)
  next
    case 4
    then show ?thesis
      using assms(2)
      by (simp add: httpAddrString_def addr_text_def strlcpy_fits)
  qed
qed


theorem httpAddrString_text_witness:
  "length (sin_addr zero_addr) = 4 \<and> length (addr_text zero_addr) < 8 \<and>
   httpAddrString zero_addr [] 8 = ''UNKNOWN'' \<and>
   length (sin_addr (zero_addr\<lparr>sa_family := AF_INET,
       sin_addr := [CHR 0xC0, CHR 0xA8, CHR 0x00, CHR 0x01]\<rparr>)) = 4 \<and>
   httpAddrString (zero_addr\<lparr>sa_family := AF_INET,
       sin_addr := [CHR 0xC0, CHR 0xA8, CHR 0x00, CHR 0x01]\<rparr>) [] 16 = ''192.168.0.1'' \<and>
   httpAddrString (zero_addr\<lparr>sa_family := AF_INET6,
       sin6_addr := [CHR 0x20, CHR 0x01, CHR 0x0D, CHR 0xB8, CHR 0x00, CHR 0x00, CHR 0x00, CHR 0x00,
                     CHR 0x00, CHR 0x00, CHR 0x00, CHR 0x00, CHR 0x00, CHR 0x00, CHR 0x00, CHR 0x01]\<rparr>) [] 40 =
     ''[20010db8:0:0:1]''"
proof -
  have t0: "addr_text zero_addr = ''UNKNOWN''"
    by (simp add: addr_text_def zero_addr_def AF_INET_def AF_INET6_def AF_LOCAL_def)
  have t4: "addr_text (zero_addr\<lparr>sa_family := AF_INET,
       sin_addr := [CHR 0xC0, CHR 0xA8, CHR 0x00, CHR 0x01]\<rparr>) = ''192.168.0.1''"
    by (simp add: addr_text_def dotted_def print_base.simps digit_char_def char_of_def bit_Suc_0_iff)
  have t6: "addr_text (zero_addr\<lparr>sa_family := AF_INET6,
       sin6_addr := [CHR 0x20, CHR 0x01, CHR 0x0D, CHR 0xB8, CHR 0x00, CHR 0x00, CHR 0x00, CHR 0x00,
                     CHR 0x00, CHR 0x00, CHR 0x00, CHR 0x00, CHR 0x00, CHR 0x00, CHR 0x00, CHR 0x01]\<rparr>) =
     ''[20010db8:0:0:1]''"
    by (simp add: addr_text_def bracketed_def be32_def NUL_def print_base.simps digit_char_def
                  AF_INET_def AF_INET6_def char_of_def bit_Suc_0_iff)
  show ?thesis
    using httpAddrString_text [of zero_addr 8 "[]"]
      httpAddrString_text [of "zero_addr\<lparr>sa_family := AF_INET,
       sin_addr := [CHR 0xC0, CHR 0xA8, CHR 0x00, CHR 0x01]\<rparr>" 16 "[]"]
      httpAddrString_text [of "zero_addr\<lparr>sa_family := AF_INET6,
       sin6_addr := [CHR 0x20, CHR 0x01, CHR 0x0D, CHR 0xB8, CHR 0x00, CHR 0x00, CHR 0x00, CHR 0x00,
                     CHR 0x00, CHR 0x00, CHR 0x00, CHR 0x00, CHR 0x00, CHR 0x00, CHR 0x00, CHR 0x01]\<rparr>" 40 "[]"]
    unfolding t0 t4 t6 by (simp add: zero_addr_def)
qed

text \<open>
  C8, as the code has it. \<open>httpAddrLookup\<close> returns \<open>name\<close> with the path for an \<open>AF_LOCAL\<close>
  address, and with the host name when \<open>gethostbyaddr\<close> finds an entry for an \<open>AF_INET\<close> or
  \<open>AF_INET6\<close> address. When there is no entry it returns null and the buffer holds what
  \<open>httpAddrString\<close> writes there; that string is not empty when the buffer has room for
  at least one character and the terminator.
\<close>

theorem httpAddrLookup_outcomes:
  "(sa_family a = AF_LOCAL \<longrightarrow>
      httpAddrLookup e cg a name namelen = Some (True, strlcpy name (sun_path a) namelen)) \<and>
   (sa_family a = AF_INET \<and> gethostbyaddr e (take 4 (sin_addr a)) AF_INET = Libc_hostent h \<and>
    string_at cg (h_name h) = Some host_name \<longrightarrow>
      httpAddrLookup e cg a name namelen = Some (True, strlcpy name host_name namelen)) \<and>
   (sa_family a = AF_INET6 \<and> gethostbyaddr e (take 16 (sin6_addr a)) AF_INET6 = Libc_hostent h \<and>
    string_at cg (h_name h) = Some host_name \<longrightarrow>
      httpAddrLookup e cg a name namelen = Some (True, strlcpy name host_name namelen)) \<and>
   (sa_family a \<noteq> AF_LOCAL \<and>
    (sa_family a = AF_INET \<longrightarrow> gethostbyaddr e (take 4 (sin_addr a)) AF_INET = NULL_hostent) \<and>
    (sa_family a = AF_INET6 \<longrightarrow> gethostbyaddr e (take 16 (sin6_addr a)) AF_INET6 = NULL_hostent) \<longrightarrow>
      httpAddrLookup e cg a name namelen = Some (False, httpAddrString a name namelen) \<and>
      (2 \<le> namelen \<longrightarrow> httpAddrString a name namelen \<noteq> []))"
  using httpAddrString_nonempty [of a namelen name]
  by (auto simp: httpAddrLookup_def lookup_result_def deref_hostent_def AF_INET_def AF_INET6_def
                 AF_LOCAL_def)


theorem httpAddrLookup_outcomes_witness:
  "httpAddrLookup no_resolver zero_globals
     (zero_addr\<lparr>sa_family := AF_LOCAL, sun_path := ''/var/run/cups.sock''\<rparr>) [] 64 =
     Some (True, ''/var/run/cups.sock'') \<and>
   httpAddrLookup
     (no_resolver\<lparr>gethostbyaddr := (\<lambda>a t. Libc_hostent
        \<lparr>h_name = Ext ''example.org'', h_aliases = NULL_list, h_addrtype = AF_INET, h_length = 4,
         h_addr_list = Ext_list [Ext a, NULL]\<rparr>)\<rparr>)
     zero_globals
     (zero_addr\<lparr>sa_family := AF_INET, sin_addr := [CHR 0x7F, CHR 0x00, CHR 0x00, CHR 0x01]\<rparr>)
     [] 64 = Some (True, ''example.org'') \<and>
   httpAddrLookup no_resolver zero_globals
     (zero_addr\<lparr>sa_family := AF_INET, sin_addr := [CHR 0x7F, CHR 0x00, CHR 0x00, CHR 0x01]\<rparr>)
     [] 16 = Some (False, ''127.0.0.1'')"
proof -
  let ?lo = "zero_addr\<lparr>sa_family := AF_INET, sin_addr := [CHR 0x7F, CHR 0x00, CHR 0x00, CHR 0x01]\<rparr>"
  let ?h = "\<lparr>h_name = Ext ''example.org'', h_aliases = NULL_list, h_addrtype = AF_INET,
            h_length = 4, h_addr_list = Ext_list [Ext [CHR 0x7F, CHR 0x00, CHR 0x00, CHR 0x01], NULL]\<rparr>"
  have 1: "httpAddrLookup no_resolver zero_globals
     (zero_addr\<lparr>sa_family := AF_LOCAL, sun_path := ''/var/run/cups.sock''\<rparr>) [] 64 =
     Some (True, ''/var/run/cups.sock'')"
    using httpAddrLookup_outcomes [of "zero_addr\<lparr>sa_family := AF_LOCAL,
        sun_path := ''/var/run/cups.sock''\<rparr>" no_resolver zero_globals "[]" 64]
    by (simp add: strlcpy_def)
  have 2: "httpAddrLookup
     (no_resolver\<lparr>gethostbyaddr := (\<lambda>a t. Libc_hostent
        \<lparr>h_name = Ext ''example.org'', h_aliases = NULL_list, h_addrtype = AF_INET, h_length = 4,
         h_addr_list = Ext_list [Ext a, NULL]\<rparr>)\<rparr>)
     zero_globals ?lo [] 64 = Some (True, ''example.org'')"
    using httpAddrLookup_outcomes [of ?lo "no_resolver\<lparr>gethostbyaddr := (\<lambda>a t. Libc_hostent
        \<lparr>h_name = Ext ''example.org'', h_aliases = NULL_list, h_addrtype = AF_INET, h_length = 4,
         h_addr_list = Ext_list [Ext a, NULL]\<rparr>)\<rparr>" zero_globals "[]" 64 ?h "''example.org''"]
    by (simp add: strlcpy_def string_at_def NUL_def AF_INET_def AF_LOCAL_def zero_addr_def)
  have 3: "httpAddrLookup no_resolver zero_globals ?lo [] 16 = Some (False, ''127.0.0.1'')"
    using httpAddrLookup_outcomes [of ?lo no_resolver zero_globals "[]" 16]
    by (simp add: no_resolver_def AF_INET_def AF_INET6_def AF_LOCAL_def loopback_text [unfolded AF_INET_def]
                  snprintf_def)
  from 1 2 3 show ?thesis by simp
qed

text \<open>
  C8 as stated fails: with a buffer of one byte the failed lookup leaves the empty string.
\<close>

theorem small_buffer_counterexample:
  "httpAddrLookup no_resolver zero_globals
     (zero_addr\<lparr>sa_family := AF_INET, sin_addr := [CHR 0x7F, CHR 0x00, CHR 0x00, CHR 0x01]\<rparr>)
     [] 1 = Some (False, [])"
  by (simp add: httpAddrLookup_def lookup_result_def no_resolver_def AF_INET_def AF_INET6_def
                AF_LOCAL_def loopback_text [unfolded AF_INET_def] snprintf_def)

section \<open>The claims on name resolution\<close>

text \<open>
  The branch for digits and dots in full. For every name of digits and dots,
  \<open>httpGetHostByName\<close> returns an entry exactly when the name has at least four components
  and the first four are decimal numbers in \<open>[0,255]\<close>; whatever follows the fourth number
  is not read. The entry then is the one in the library globals, of family \<open>AF_INET\<close> and
  length 4, and the first four bytes of \<open>cg->ip_addrs[0]\<close> are the four octets, most
  significant first. Otherwise, when every component fits \<open>unsigned\<close>, the result is null
  and the globals are unchanged.
\<close>

theorem httpGetHostByName_quad_prefix:
  assumes "\<forall>c\<in>set name. isdigit c \<or> c = CHR ''.''"
  shows "((\<exists>cg'. httpGetHostByName e cg name = Some (Cg_hostent, cg')) \<longleftrightarrow> quad_prefix name) \<and>
         (quad_prefix name \<longrightarrow>
            httpGetHostByName e cg name =
              Some (Cg_hostent,
                cg\<lparr>ip_addrs := (ip_addrs cg)
                      (0 := map (\<lambda>f. char_of (digits_val 10 f)) (take 4 (components name)) @
                            drop 4 (ip_addrs cg 0)),
                   hostent := \<lparr>h_name = Ext name, h_aliases = NULL_list, h_addrtype = AF_INET,
                               h_length = 4, h_addr_list = Ip_ptrs\<rparr>,
                   ip_ptrs := (ip_ptrs cg)(0 := Ip_addrs 0, 1 := NULL)\<rparr>)) \<and>
         (\<not> quad_prefix name \<and> list_all (\<lambda>f. digits_val 10 f < 2 ^ 32) (components name) \<longrightarrow>
            httpGetHostByName e cg name = Some (NULL_hostent, cg))"
proof -
  note br = digdot_branch [OF assms, of e cg]
  note ok = quad_prefix_entry [OF assms, of e cg]
  have only: "quad_prefix name" if "httpGetHostByName e cg name = Some (Cg_hostent, cg')" for cg'
    using ipv4_entry_entry [of cg name cg'] that
    unfolding br quad_prefix_scan [OF assms] by simp
  have bad: "httpGetHostByName e cg name = Some (NULL_hostent, cg)"
    if "\<not> quad_prefix name" "list_all (\<lambda>f. digits_val 10 f < 2 ^ 32) (components name)"
    unfolding br
    using that(1) ipv4_entry_failure [OF scan_fields_subset [OF assms that(2)], of cg]
    unfolding quad_prefix_scan [OF assms] by blast
  from ok only bad show ?thesis by blast
qed

lemma components_5: "components ''1.2.3.4.5'' = [''1'', ''2'', ''3'', ''4'', ''5'']"
  by (simp add: components.simps)

theorem httpGetHostByName_quad_prefix_witness:
  "quad_prefix ''1.2.3.4.5'' \<and>
   httpGetHostByName no_resolver zero_globals ''1.2.3.4.5'' =
     Some (Cg_hostent,
       zero_globals\<lparr>ip_addrs := (ip_addrs zero_globals)
             (0 := [CHR 0x01, CHR 0x02, CHR 0x03, CHR 0x04] @ replicate 12 NUL),
          hostent := \<lparr>h_name = Ext ''1.2.3.4.5'', h_aliases = NULL_list, h_addrtype = AF_INET,
                      h_length = 4, h_addr_list = Ip_ptrs\<rparr>,
          ip_ptrs := (ip_ptrs zero_globals)(0 := Ip_addrs 0, 1 := NULL)\<rparr>)"
proof -
  have h: "\<forall>c\<in>set ''1.2.3.4.5''. isdigit c \<or> c = CHR ''.''"
    by (simp add: isdigit_def)
  have q: "quad_prefix ''1.2.3.4.5''"
    by (simp add: quad_prefix_def components_5 digits_val_def digit_val_def isdigit_def)
  show ?thesis
    using h q httpGetHostByName_quad_prefix [OF h, of no_resolver zero_globals]
    by (simp add: components_5 digits_val_def digit_val_def isdigit_def zero_globals_def char_of_def bit_Suc_0_iff)
qed

text \<open>
  C1. The claim has every name with more than four components fail. \<open>"1.2.3.4.5"\<close> has
  five components, so it is no dotted quad, and yet it resolves, to 1.2.3.4: \<open>sscanf\<close> has
  converted four numbers and what follows the fourth is never looked at. The branch for
  bracketed literals, beside it, does refuse a fifth group.
\<close>

theorem five_components_accepted:
  "\<not> dotted_quad ''1.2.3.4.5'' \<and>
   map_option fst (httpGetHostByName no_resolver zero_globals ''1.2.3.4.5'') = Some Cg_hostent \<and>
   map_option (\<lambda>r. first_address no_resolver (snd r) (fst r))
     (httpGetHostByName no_resolver zero_globals ''1.2.3.4.5'') =
     Some (Some ([CHR 0x01, CHR 0x02, CHR 0x03, CHR 0x04] @ replicate 12 NUL))"
proof -
  have h: "\<forall>c\<in>set ''1.2.3.4.5''. isdigit c \<or> c = CHR ''.''"
    by (simp add: isdigit_def)
  have q: "quad_prefix ''1.2.3.4.5''"
    by (simp add: quad_prefix_def components_5 digits_val_def digit_val_def isdigit_def)
  have o: "map (\<lambda>f. char_of (digits_val 10 f)) (take 4 (components ''1.2.3.4.5'')) =
           [CHR 0x01, CHR 0x02, CHR 0x03, CHR 0x04]"
    by (simp add: components_5 digits_val_def digit_val_def isdigit_def char_of_def bit_Suc_0_iff)
  show ?thesis
    unfolding quad_prefix_entry [OF h q] o
    by (simp add: dotted_quad_def components_5 first_address_def deref_hostent_def
                  addr_list_entry_def bytes_at_def zero_globals_def)
qed

text \<open>
  C4, as the code has it. For octets \<open>a\<close>, \<open>b\<close>, \<open>c\<close>, \<open>d\<close> in \<open>[0,255]\<close>, resolving the text
  \<open>a.b.c.d\<close> written in decimal without leading zeros, loading address 0 of the entry and
  formatting it into a buffer that holds the text gives the same text back.
\<close>

theorem dotted_quad_round_trip:
  assumes "a \<le> 255" "b \<le> 255" "c \<le> 255" "d \<le> 255"
    and "length (sin_addr addr) = 4" and "length (dotted a b c d) < slen"
  shows "map_option (\<lambda>x. httpAddrString x s slen) (resolve_addr e cg (dotted a b c d) port addr) =
         Some (dotted a b c d)"
proof -
  let ?r = "addr\<lparr>sin_port := htons port,
               sin_addr := [char_of a, char_of b, char_of c, char_of d], sa_family := AF_INET\<rparr>"
  have r: "resolve_addr e cg (dotted a b c d) port addr = Some ?r"
    unfolding resolve_addr_quad [OF digdot_dotted quad_prefix_dotted [OF assms(1-4)] assms(5)]
    by (simp add: components_dotted digits_val_print_base)
  have o: "(of_char (char_of a) :: nat) = a" "(of_char (char_of b) :: nat) = b"
          "(of_char (char_of c) :: nat) = c" "(of_char (char_of d) :: nat) = d"
    using assms(1-4) by simp_all
  have "httpAddrString ?r s slen = snprintf s slen (dotted a b c d)"
    using httpAddrString_ipv4 [of ?r "char_of a" "char_of b" "char_of c" "char_of d" s slen]
    unfolding o by simp
  then show ?thesis
    unfolding r using assms(6) by (simp add: snprintf_fits)
qed

lemma dotted_192: "dotted 192 168 0 255 = ''192.168.0.255''"
  by (simp add: dotted_def print_base.simps digit_char_def char_of_def bit_Suc_0_iff)

theorem dotted_quad_round_trip_witness:
  "(192::nat) \<le> 255 \<and> (168::nat) \<le> 255 \<and> (0::nat) \<le> 255 \<and> (255::nat) \<le> 255 \<and>
   length (sin_addr zero_addr) = 4 \<and> length ''192.168.0.255'' < (16::nat) \<and>
   map_option (\<lambda>x. httpAddrString x [] 16)
     (resolve_addr no_resolver zero_globals ''192.168.0.255'' 631 zero_addr) = Some ''192.168.0.255''"
  using dotted_quad_round_trip [of 192 168 0 255 zero_addr 16 "[]" no_resolver zero_globals 631]
  unfolding dotted_192 by (simp add: bytes_of_zero_addr)

lemma components_leading_zero: "components ''01.2.3.4'' = [''01'', ''2'', ''3'', ''4'']"
  by (simp add: components.simps)

text \<open>
  C4 as stated fails: \<open>"01.2.3.4"\<close> has four components in \<open>[0,255]\<close> and comes back as
  \<open>"1.2.3.4"\<close>.
\<close>

theorem leading_zero_counterexample:
  "dotted_quad ''01.2.3.4'' \<and>
   map_option (\<lambda>x. httpAddrString x [] 16)
     (resolve_addr no_resolver zero_globals ''01.2.3.4'' 631 zero_addr) = Some ''1.2.3.4''"
proof -
  have h: "\<forall>c\<in>set ''01.2.3.4''. isdigit c \<or> c = CHR ''.''"
    by (simp add: isdigit_def)
  have v: "digits_val 10 ''01'' = 1" "digits_val 10 ''2'' = 2" "digits_val 10 ''3'' = 3"
          "digits_val 10 ''4'' = 4"
    by (simp_all add: digits_val_def digit_val_def isdigit_def)
  have q: "quad_prefix ''01.2.3.4''" and dq: "dotted_quad ''01.2.3.4''"
    by (simp_all add: quad_prefix_def dotted_quad_def components_leading_zero v)
  let ?r = "zero_addr\<lparr>sin_port := htons 631,
               sin_addr := [char_of (1::nat), char_of (2::nat), char_of (3::nat), char_of (4::nat)],
               sa_family := AF_INET\<rparr>"
  have r: "resolve_addr no_resolver zero_globals ''01.2.3.4'' 631 zero_addr = Some ?r"
    unfolding resolve_addr_quad [OF h q bytes_of_zero_addr]
    by (simp add: components_leading_zero v)
  have "httpAddrString ?r [] 16 = snprintf [] 16 (dotted 1 2 3 4)"
    using httpAddrString_ipv4 [of ?r "char_of (1::nat)" "char_of (2::nat)" "char_of (3::nat)"
        "char_of (4::nat)" "[]" 16]
    by simp
  also have "\<dots> = ''1.2.3.4''"
    by (simp add: snprintf_def dotted_def print_base.simps digit_char_def char_of_def bit_Suc_0_iff)
  finally show ?thesis
    unfolding r using dq by simp
qed

text \<open>
  C9. The name \<open>localhost\<close> is replaced by \<open>127.0.0.1\<close> before anything else: the two names
  give the same result, and the addresses loaded from the two results, with any ports,
  are IPv4 addresses that \<open>httpAddrEqual\<close> finds equal.
\<close>

theorem localhost_is_loopback:
  assumes "length (sin_addr a0) = 4" and "length (sin_addr b0) = 4"
  shows "httpGetHostByName e cg ''localhost'' = httpGetHostByName e cg ''127.0.0.1'' \<and>
         (\<exists>a b. resolve_addr e cg ''localhost'' p a0 = Some a \<and>
                resolve_addr e cg' ''127.0.0.1'' q b0 = Some b \<and>
                sa_family a = AF_INET \<and> sin_addr a = [CHR 0x7F, CHR 0x00, CHR 0x00, CHR 0x01] \<and>
                httpAddrEqual a b = 1)"
proof -
  have "resolve_addr e cg ''localhost'' p a0 = resolve_addr e cg ''127.0.0.1'' p a0"
    by (simp add: resolve_addr_def localhost_substituted)
  then have a: "resolve_addr e cg ''localhost'' p a0 =
      Some (a0\<lparr>sin_port := htons p, sin_addr := [CHR 0x7F, CHR 0x00, CHR 0x00, CHR 0x01],
               sa_family := AF_INET\<rparr>)"
    by (simp add: resolve_addr_quad [OF loopback_literal(1,2) assms(1)] loopback_literal(3))
  have b: "resolve_addr e cg' ''127.0.0.1'' q b0 =
      Some (b0\<lparr>sin_port := htons q, sin_addr := [CHR 0x7F, CHR 0x00, CHR 0x00, CHR 0x01],
               sa_family := AF_INET\<rparr>)"
    by (simp add: resolve_addr_quad [OF loopback_literal(1,2) assms(2)] loopback_literal(3))
  show ?thesis
    unfolding a b
    by (simp add: localhost_substituted httpAddrEqual_def AF_INET_def AF_INET6_def AF_LOCAL_def)
qed

theorem localhost_is_loopback_witness:
  "length (sin_addr zero_addr) = 4 \<and>
   httpGetHostByName no_resolver zero_globals ''localhost'' =
     httpGetHostByName no_resolver zero_globals ''127.0.0.1'' \<and>
   (\<exists>a b. resolve_addr no_resolver zero_globals ''localhost'' 631 zero_addr = Some a \<and>
          resolve_addr no_resolver zero_globals ''127.0.0.1'' 80 zero_addr = Some b \<and>
          sa_family a = AF_INET \<and> sin_addr a = [CHR 0x7F, CHR 0x00, CHR 0x00, CHR 0x01] \<and>
          httpAddrEqual a b = 1)"
  using localhost_is_loopback [OF bytes_of_zero_addr bytes_of_zero_addr,
          of no_resolver zero_globals 631 zero_globals 80]
  by (simp add: bytes_of_zero_addr)

subsection \<open>Where the result lives\<close>

lemma ipv4_entry_ptr:
  assumes "ipv4_entry cg name = Some (p, cg')"
  shows "p = NULL_hostent \<or> p = Cg_hostent"
proof -
  obtain n vs where s: "sscanf_quad name = (n, vs)"
    by (cases "sscanf_quad name")
  show ?thesis
    using assms unfolding ipv4_entry_def s
    by (simp add: Let_def split: if_splits)
qed

lemma ipv6_entry_ptr: "fst (ipv6_entry e cg name) = NULL_hostent \<or> fst (ipv6_entry e cg name) = Cg_hostent"
proof -
  obtain i p row where g: "ipv6_groups (ULONG_MAX e) 0 (tl name)
      (ip_addrs (cg\<lparr>hostent := (hostent cg)\<lparr>h_name := Ext name, h_aliases := NULL_list,
                   h_addrtype := AF_INET6, h_length := 16, h_addr_list := Ip_ptrs\<rparr>,
                   ip_ptrs := (ip_ptrs cg)(0 := Ip_addrs 0, 1 := NULL)\<rparr>) 0) = (i, p, row)"
    using prod_cases3 by blast
  show ?thesis
    using g by (simp add: ipv6_entry_def Let_def)
qed

lemma resolver_entry_ptr:
  assumes "resolver_entry e cg name = Some (p, cg')"
  shows "p = gethostbyname e name \<or> p = Cg_hostent"
proof (cases "getaddrinfo e name")
  case None
  with assms show ?thesis by (simp add: resolver_entry_def)
next
  case (Some results)
  define chosen where "chosen = (case first_of_family AF_INET6 results of
                 Some current \<Rightarrow> Some current
               | None \<Rightarrow> first_of_family AF_INET results)"
  show ?thesis
  proof (cases chosen)
    case None
    with assms Some show ?thesis by (simp add: resolver_entry_def flip: chosen_def)
  next
    case cur: (Some current)
    from assms show ?thesis
      unfolding resolver_entry_def Some
      by (simp add: cur Let_def flip: chosen_def split: Option.bind_splits prod.splits)
  qed
qed

lemma httpGetHostByName_ptr:
  assumes "httpGetHostByName e cg name = Some (p, cg')"
  shows "p = NULL_hostent \<or> p = Cg_hostent \<or> p = gethostbyname e name"
proof (cases "name = ''localhost''")
  case True
  have "httpGetHostByName e cg name = ipv4_entry cg ''127.0.0.1''"
    unfolding True localhost_substituted
    using digdot_branch [OF loopback_literal(1)] .
  with assms ipv4_entry_ptr show ?thesis by metis
next
  case False
  consider "peek name = CHR ''/''" | "peek name \<noteq> CHR ''/''" "peek name = CHR ''[''"
    | "peek name \<noteq> CHR ''/''" "peek name \<noteq> CHR ''[''"
      "peek (dropWhile (\<lambda>c. isdigit c \<or> c = CHR ''.'') name) = NUL"
    | "peek name \<noteq> CHR ''/''" "peek name \<noteq> CHR ''[''"
      "peek (dropWhile (\<lambda>c. isdigit c \<or> c = CHR ''.'') name) \<noteq> NUL" "HAVE_GETADDRINFO e"
    | "peek name \<noteq> CHR ''/''" "peek name \<noteq> CHR ''[''"
      "peek (dropWhile (\<lambda>c. isdigit c \<or> c = CHR ''.'') name) \<noteq> NUL" "\<not> HAVE_GETADDRINFO e"
    by blast
  then show ?thesis
  proof cases
    case 1
    with assms False show ?thesis
      by (auto simp: httpGetHostByName_def local_entry_def Let_def)
  next
    case 2
    with assms False have "p = fst (ipv6_entry e cg name)"
      by (auto simp: httpGetHostByName_def)
    with ipv6_entry_ptr [of e cg name] show ?thesis by blast
  next
    case 3
    with assms False have "ipv4_entry cg name = Some (p, cg')"
      by (simp add: httpGetHostByName_def)
    with ipv4_entry_ptr show ?thesis by blast
  next
    case 4
    with assms False have "resolver_entry e cg name = Some (p, cg')"
      by (simp add: httpGetHostByName_def)
    with resolver_entry_ptr show ?thesis by blast
  next
    case 5
    with assms False show ?thesis
      by (simp add: httpGetHostByName_def)
  qed
qed

lemma length_htonl: "length (htonl w) = 4"
  by (simp add: htonl_def)

lemma components_examples:
  "components ''1.2.3.4'' = [''1'', ''2'', ''3'', ''4'']"
  "components ''5.6.7.8'' = [''5'', ''6'', ''7'', ''8'']"
  by (simp_all add: components.simps)

lemma literal_examples:
  "\<forall>c\<in>set ''1.2.3.4''. isdigit c \<or> c = CHR ''.''" "quad_prefix ''1.2.3.4''"
  "map (\<lambda>f. char_of (digits_val 10 f)) (take 4 (components ''1.2.3.4'')) =
     [CHR 0x01, CHR 0x02, CHR 0x03, CHR 0x04]"
  "\<forall>c\<in>set ''5.6.7.8''. isdigit c \<or> c = CHR ''.''" "quad_prefix ''5.6.7.8''"
  "map (\<lambda>f. char_of (digits_val 10 f)) (take 4 (components ''5.6.7.8'')) =
     [CHR 0x05, CHR 0x06, CHR 0x07, CHR 0x08]"
  by (simp_all add: quad_prefix_def components_examples digits_val_def digit_val_def isdigit_def
                    char_of_def bit_Suc_0_iff)

lemma resolve_twice_example:
  "resolve_twice no_resolver zero_globals ''1.2.3.4'' ''5.6.7.8'' =
     Some (Cg_hostent,
           Some ([CHR 0x01, CHR 0x02, CHR 0x03, CHR 0x04] @ replicate 12 NUL),
           Cg_hostent,
           Some ([CHR 0x05, CHR 0x06, CHR 0x07, CHR 0x08] @ replicate 12 NUL),
           Some ([CHR 0x05, CHR 0x06, CHR 0x07, CHR 0x08] @ replicate 12 NUL))"
  unfolding resolve_twice_def quad_prefix_entry [OF literal_examples(1,2)] literal_examples(3)
  by (simp add: quad_prefix_entry [OF literal_examples(4,5)] literal_examples(6)
                first_address_def deref_hostent_def addr_list_entry_def bytes_at_def zero_globals_def)

text \<open>
  C2, as the code has it. No call returns a result of its own: a result that is neither
  null nor the entry that \<open>gethostbyname\<close> gave is the address of the one \<open>hostent\<close> in the
  library globals. So two such calls return the same pointer, and what is read through
  the first result after the second call is the second call's entry.
\<close>

theorem httpGetHostByName_shared_entry:
  assumes "resolve_twice e cg name1 name2 = Some (p1, x1, p2, x2, y1)"
    and "p1 \<noteq> NULL_hostent" and "p1 \<noteq> gethostbyname e name1"
    and "p2 \<noteq> NULL_hostent" and "p2 \<noteq> gethostbyname e name2"
  shows "p1 = Cg_hostent \<and> p2 = p1 \<and> y1 = x2"
proof -
  from assms(1) obtain cg1 cg2 where 1: "httpGetHostByName e cg name1 = Some (p1, cg1)"
    and 2: "httpGetHostByName e cg1 name2 = Some (p2, cg2)"
    and x: "x2 = first_address e cg2 p2" "y1 = first_address e cg2 p1"
    by (auto simp: resolve_twice_def split: Option.bind_splits)
  from httpGetHostByName_ptr [OF 1] assms(2,3) have p1: "p1 = Cg_hostent" by simp
  from httpGetHostByName_ptr [OF 2] assms(4,5) have p2: "p2 = Cg_hostent" by simp
  from p1 p2 x show ?thesis by simp
qed

theorem httpGetHostByName_shared_entry_witness:
  "resolve_twice no_resolver zero_globals ''1.2.3.4'' ''5.6.7.8'' =
     Some (Cg_hostent,
           Some ([CHR 0x01, CHR 0x02, CHR 0x03, CHR 0x04] @ replicate 12 NUL),
           Cg_hostent,
           Some ([CHR 0x05, CHR 0x06, CHR 0x07, CHR 0x08] @ replicate 12 NUL),
           Some ([CHR 0x05, CHR 0x06, CHR 0x07, CHR 0x08] @ replicate 12 NUL)) \<and>
   Cg_hostent \<noteq> NULL_hostent \<and> Cg_hostent \<noteq> gethostbyname no_resolver ''1.2.3.4'' \<and>
   Cg_hostent \<noteq> gethostbyname no_resolver ''5.6.7.8'' \<and>
   Cg_hostent = Cg_hostent \<and>
   Some ([CHR 0x05, CHR 0x06, CHR 0x07, CHR 0x08] @ replicate 12 NUL) =
   Some ([CHR 0x05, CHR 0x06, CHR 0x07, CHR 0x08] @ replicate 12 NUL)"
proof -
  have g: "Cg_hostent \<noteq> NULL_hostent" "Cg_hostent \<noteq> gethostbyname no_resolver ''1.2.3.4''"
          "Cg_hostent \<noteq> gethostbyname no_resolver ''5.6.7.8''"
    by (simp_all add: no_resolver_def)
  show ?thesis
    using httpGetHostByName_shared_entry [OF resolve_twice_example g(1) g(2) g(1) g(3)]
      resolve_twice_example g
    by simp
qed

text \<open>
  C2 as stated fails: after resolving \<open>"1.2.3.4"\<close> and then \<open>"5.6.7.8"\<close> the two results
  are the same pointer, and the first result, which read 1.2.3.4, now reads 5.6.7.8.
\<close>

theorem shared_entry_counterexample:
  "resolve_twice no_resolver zero_globals ''1.2.3.4'' ''5.6.7.8'' =
     Some (Cg_hostent,
           Some [CHR 0x01, CHR 0x02, CHR 0x03, CHR 0x04, NUL, NUL, NUL, NUL, NUL, NUL, NUL, NUL,
                 NUL, NUL, NUL, NUL],
           Cg_hostent,
           Some [CHR 0x05, CHR 0x06, CHR 0x07, CHR 0x08, NUL, NUL, NUL, NUL, NUL, NUL, NUL, NUL,
                 NUL, NUL, NUL, NUL],
           Some [CHR 0x05, CHR 0x06, CHR 0x07, CHR 0x08, NUL, NUL, NUL, NUL, NUL, NUL, NUL, NUL,
                 NUL, NUL, NUL, NUL])"
  unfolding resolve_twice_example by (simp add: numeral_eq_Suc)

subsection \<open>Bracketed literals\<close>

lemma ntohl_group: "ntohl (htonl w @ rest) = w"
  using ntohl_htonl [of w] by (simp add: ntohl_def length_htonl)

lemma peek_simps: "peek [] = NUL" "peek (c # cs) = c"
  by (simp_all add: peek_def)

lemma groups_unspecified:
  "ipv6_groups um 0 ''::]'' row =
     (2, '']'', put32 (put32 row 0 (replicate 4 NUL)) 1 (replicate 4 NUL))"
  by (simp add: ipv6_groups.simps peek_simps NUL_def)

lemma zero_fill_2:
  "zero_fill 2 row = put32 (put32 row 2 (replicate 4 NUL)) 3 (replicate 4 NUL)"
  by (simp add: zero_fill.simps)

lemma zero_rows:
  "put32 (put32 (put32 (put32 (replicate 16 NUL) 0 (replicate 4 NUL)) (Suc 0) (replicate 4 NUL)) 2
     (replicate 4 NUL)) 3 (replicate 4 NUL) =
   [NUL, NUL, NUL, NUL, NUL, NUL, NUL, NUL, NUL, NUL, NUL, NUL, NUL, NUL, NUL, NUL]"
  by (simp add: put32_def numeral_eq_Suc)

lemma bracket_not_NUL: "CHR '']'' \<noteq> NUL"
  by (simp add: NUL_def)

lemma bracket_unspecified_entry:
  "fst (ipv6_entry no_resolver zero_globals ''[::]'') = NULL_hostent"
  "ip_addrs (snd (ipv6_entry no_resolver zero_globals ''[::]'')) 0 =
   [NUL, NUL, NUL, NUL, NUL, NUL, NUL, NUL, NUL, NUL, NUL, NUL, NUL, NUL, NUL, NUL]"
  by (simp_all add: ipv6_entry_def groups_unspecified zero_fill_2 set_row0_def zero_globals_def
                    peek_simps Let_def bracket_not_NUL zero_rows)

text \<open>
  C3. The claim lets an empty group be zero and missing trailing groups be zero-filled.
  On \<open>"[::]"\<close> the loop sets two groups to zero and leaves at the closing bracket, the
  two missing groups are zero-filled, and then the call returns null all the same: the
  bracket at which the loop stopped is still unread when the rest is tested.
\<close>

theorem bracket_unspecified_rejected:
  "map_option fst (httpGetHostByName no_resolver zero_globals ''[::]'') = Some NULL_hostent \<and>
   map_option (\<lambda>r. ip_addrs (snd r) 0) (httpGetHostByName no_resolver zero_globals ''[::]'') =
     Some [NUL, NUL, NUL, NUL, NUL, NUL, NUL, NUL, NUL, NUL, NUL, NUL, NUL, NUL, NUL, NUL]"
  by (simp add: httpGetHostByName_def peek_simps bracket_unspecified_entry)


text \<open>
  The two examples of the claim hold: \<open>"[2001:db8::1]"\<close> gives the groups 0x2001, 0xdb8,
  0, 1, and \<open>"[::1]x"\<close> gives null. A fifth group gives null as well.
\<close>

lemmas scan_defs = strtoul_16_def isspace_def isxdigit_def isdigit_def has_0x_def digits_val_def
  digit_val_def peek_simps Let_def

lemma strtoul_examples:
  "strtoul_16 18446744073709551615 ''2001:db8::1]'' = (0x2001, '':db8::1]'')"
  "strtoul_16 18446744073709551615 ''db8::1]'' = (0xdb8, ''::1]'')"
  "strtoul_16 18446744073709551615 ''1]'' = (1, '']'')"
  "strtoul_16 18446744073709551615 ''1]x'' = (1, '']x'')"
  "strtoul_16 18446744073709551615 ''x'' = (0, ''x'')"
  by (simp_all add: scan_defs)

lemma four_Suc: "Suc (Suc (Suc (Suc 0))) = 4"
  by simp

lemma groups_example:
  "ipv6_groups 18446744073709551615 0 ''2001:db8::1]'' row =
     (4, [], put32 (put32 (put32 (put32 row 0 (htonl 0x2001)) (Suc 0) (htonl 0xdb8)) 2
                (replicate 4 NUL)) 3 (htonl 1))"
  by (simp add: ipv6_groups.simps strtoul_examples peek_simps NUL_def four_Suc
           flip: numeral_2_eq_2 numeral_3_eq_3)

lemma groups_trailing_example:
  "fst (snd (ipv6_groups 18446744073709551615 0 ''::1]x'' row)) = ''x''"
  by (simp add: ipv6_groups.simps strtoul_examples peek_simps NUL_def)

lemma put32_rows:
  assumes "length row = 16" "length a = 4" "length b = 4" "length c = 4" "length d = 4"
  shows "put32 (put32 (put32 (put32 row 0 a) (Suc 0) b) 2 c) 3 d = a @ b @ c @ d"
  using assms by (simp add: put32_def)

lemma htonl_0: "htonl 0 = replicate 4 NUL"
  by (simp add: htonl_def byte_def NUL_def char_of_def numeral_eq_Suc)

lemma bracket_example:
  "map_option (\<lambda>r. (fst r, ntohl (ip_addrs (snd r) 0), ntohl (drop 4 (ip_addrs (snd r) 0)),
                      ntohl (drop 8 (ip_addrs (snd r) 0)), ntohl (drop 12 (ip_addrs (snd r) 0))))
     (httpGetHostByName no_resolver zero_globals ''[2001:db8::1]'') =
   Some (Cg_hostent, 0x2001, 0xdb8, 0, 1)"
proof -
  have u: "ULONG_MAX no_resolver = 18446744073709551615" "ip_addrs zero_globals 0 = replicate 16 NUL"
    by (simp_all add: no_resolver_def zero_globals_def)
  have z: "zero_fill 4 row = row" for row
    by (simp add: zero_fill.simps)
  have r: "put32 (put32 (put32 (put32 (replicate 16 NUL) 0 (htonl 0x2001)) (Suc 0) (htonl 0xdb8)) 2
                (replicate 4 NUL)) 3 (htonl 1) = htonl 0x2001 @ htonl 0xdb8 @ htonl 0 @ htonl 1"
    unfolding htonl_0 by (rule put32_rows) (simp_all add: length_htonl)
  have e: "ipv6_entry no_resolver zero_globals ''[2001:db8::1]'' =
      (Cg_hostent,
       zero_globals\<lparr>hostent := \<lparr>h_name = Ext ''[2001:db8::1]'', h_aliases = NULL_list,
                        h_addrtype = AF_INET6, h_length = 16, h_addr_list = Ip_ptrs\<rparr>,
          ip_ptrs := (ip_ptrs zero_globals)(0 := Ip_addrs 0, 1 := NULL),
          ip_addrs := (ip_addrs zero_globals)
             (0 := htonl 0x2001 @ htonl 0xdb8 @ htonl 0 @ htonl 1)\<rparr>)"
    by (simp add: ipv6_entry_def u groups_example z r set_row0_def peek_simps)
  show ?thesis
    by (simp add: httpGetHostByName_def peek_simps e ntohl_group ntohl_htonl length_htonl)
qed

lemma strtoul_groups:
  "strtoul_16 18446744073709551615 ''1:2:3:4:5]'' = (1, '':2:3:4:5]'')"
  "strtoul_16 18446744073709551615 ''2:3:4:5]'' = (2, '':3:4:5]'')"
  "strtoul_16 18446744073709551615 ''3:4:5]'' = (3, '':4:5]'')"
  "strtoul_16 18446744073709551615 ''4:5]'' = (4, '':5]'')"
  by (simp_all add: scan_defs)

lemma groups_fifth_example:
  "fst (snd (ipv6_groups 18446744073709551615 0 ''1:2:3:4:5]'' row)) = ''5]''"
  by (simp add: ipv6_groups.simps strtoul_groups peek_simps NUL_def four_Suc
           flip: numeral_2_eq_2 numeral_3_eq_3)

lemma bracket_fifth_group:
  "map_option fst (httpGetHostByName no_resolver zero_globals ''[1:2:3:4:5]'') = Some NULL_hostent"
proof -
  have u: "ULONG_MAX no_resolver = 18446744073709551615"
    by (simp add: no_resolver_def)
  obtain i p row where g: "ipv6_groups 18446744073709551615 0 ''1:2:3:4:5]''
      (ip_addrs (zero_globals\<lparr>hostent := (hostent zero_globals)\<lparr>h_name := Ext ''[1:2:3:4:5]'',
          h_aliases := NULL_list, h_addrtype := AF_INET6, h_length := 16, h_addr_list := Ip_ptrs\<rparr>,
          ip_ptrs := (ip_ptrs zero_globals)(0 := Ip_addrs 0, 1 := NULL)\<rparr>) 0) = (i, p, row)"
    using prod_cases3 by blast
  with groups_fifth_example have "p = ''5]''"
    by (metis fst_conv snd_conv)
  with g have "fst (ipv6_entry no_resolver zero_globals ''[1:2:3:4:5]'') = NULL_hostent"
    by (simp add: ipv6_entry_def u peek_simps NUL_def)
  then show ?thesis
    by (simp add: httpGetHostByName_def peek_simps)
qed

lemma bracket_trailing_example:
  "map_option fst (httpGetHostByName no_resolver zero_globals ''[::1]x'') = Some NULL_hostent"
proof -
  have u: "ULONG_MAX no_resolver = 18446744073709551615"
    by (simp add: no_resolver_def)
  obtain i p row where g: "ipv6_groups 18446744073709551615 0 ''::1]x''
      (ip_addrs (zero_globals\<lparr>hostent := (hostent zero_globals)\<lparr>h_name := Ext ''[::1]x'',
          h_aliases := NULL_list, h_addrtype := AF_INET6, h_length := 16, h_addr_list := Ip_ptrs\<rparr>,
          ip_ptrs := (ip_ptrs zero_globals)(0 := Ip_addrs 0, 1 := NULL)\<rparr>) 0) = (i, p, row)"
    using prod_cases3 by blast
  with groups_trailing_example have "p = ''x''"
    by (metis fst_conv snd_conv)
  with g have "fst (ipv6_entry no_resolver zero_globals ''[::1]x'') = NULL_hostent"
    by (simp add: ipv6_entry_def u peek_simps NUL_def)
  then show ?thesis
    by (simp add: httpGetHostByName_def peek_simps)
qed

end
